theory Spec2Isabelle
  imports Complex_Main "HOL-Library.Word"
begin

section \<open>Rate-limiting middleware of the Studio service\<close>

text \<open>
  A shallow embedding of the Go package \<open>service/pkg/middleware/ratelimit\<close>
  (files \<open>config.go\<close>, \<open>ratelimit.go\<close>, \<open>sliding_window.go\<close>).

  Conventions of the embedding.
  \<^item> Go's \<open>int\<close> (limits, counts, remaining quota) is a 64-bit word; comparisons are the
    signed ones (\<open><s\<close>, \<open>\<le>s\<close>), arithmetic wraps as in Go.
  \<^item> \<open>time.Time\<close> is an integer number of nanoseconds since the Unix epoch and
    \<open>time.Duration\<close> an integer number of nanoseconds; Unix second and millisecond
    stamps are integers too.
  \<^item> The numbers of the sliding-window script are Lua doubles with integer values; their
    rounding above \<open>2^53\<close> is written out. The token-bucket limiter of
    \<open>sliding_window.go\<close> computes with fractional doubles and is not part of this
    development.
  \<^item> Every value the code obtains from its environment (\<open>time.Now()\<close>, the outcome of a
    store round trip, \<open>math.random()\<close> inside the store script, the order in which
    \<open>range\<close> visits a Go map, the feature flag) is an explicit argument.
  \<^item> Mutation is state passing: a function returns the updated limiter, store or
    middleware next to its result.
\<close>

subsection \<open>String helpers of package \<open>strings\<close>\<close>

definition HasPrefix :: "string \<Rightarrow> string \<Rightarrow> bool" where
  "HasPrefix s pre = (take (length pre) s = pre)"

definition HasSuffix :: "string \<Rightarrow> string \<Rightarrow> bool" where
  "HasSuffix s suf = (length suf \<le> length s \<and> drop (length s - length suf) s = suf)"

definition TrimSuffix :: "string \<Rightarrow> string \<Rightarrow> string" where
  "TrimSuffix s suf = (if HasSuffix s suf then take (length s - length suf) s else s)"

fun Contains :: "string \<Rightarrow> string \<Rightarrow> bool" where
  "Contains [] sub = (sub = [])"
| "Contains (c # cs) sub = (HasPrefix (c # cs) sub \<or> Contains cs sub)"

text \<open>
  \<open>strings.Split(s, sep)\<close> for a separator of one byte, the only use in the package
  (\<open>sep = "/"\<close>): the pieces between the separators, \<open>[""]\<close> for the empty string.
\<close>

fun Split :: "string \<Rightarrow> char \<Rightarrow> string list" where
  "Split [] sep = [] # []"
| "Split (c # cs) sep =
     (if c = sep then [] # Split cs sep
      else (case Split cs sep of
              [] \<Rightarrow> [c # []]
            | piece # pieces \<Rightarrow> (c # piece) # pieces))"

subsection \<open>config.go: tiers and keys\<close>

type_synonym go_int = "64 word"

record TierConfig =
  RequestsPerSecond :: go_int
  RequestsPerMinute :: go_int
  Burst :: go_int
  Window :: int
  ConnectionsPerUser :: go_int

record Config =
  Enabled :: bool
  Global :: TierConfig
  User :: TierConfig
  IP :: TierConfig
  API :: "string \<rightharpoonup> TierConfig"
  FallbackToLocal :: bool

definition Second :: int where
  "Second = 1000000000"

definition Minute :: int where
  "Minute = 60 * Second"

definition DefaultConfig :: Config where
  "DefaultConfig =
     \<lparr> Enabled = True,
       Global = \<lparr> RequestsPerSecond = 1000, RequestsPerMinute = 0, Burst = 100,
                  Window = Second, ConnectionsPerUser = 0 \<rparr>,
       User = \<lparr> RequestsPerSecond = 0, RequestsPerMinute = 300, Burst = 50,
                Window = Minute, ConnectionsPerUser = 0 \<rparr>,
       IP = \<lparr> RequestsPerSecond = 0, RequestsPerMinute = 60, Burst = 10,
              Window = Minute, ConnectionsPerUser = 0 \<rparr>,
       API = Map.empty,
       FallbackToLocal = True \<rparr>"

definition GetEffectiveLimit :: "TierConfig \<Rightarrow> go_int" where
  "GetEffectiveLimit t =
     (if 0 <s RequestsPerSecond t then RequestsPerSecond t else RequestsPerMinute t)"

definition GetEffectiveWindow :: "TierConfig \<Rightarrow> int" where
  "GetEffectiveWindow t =
     (if 0 < Window t then Window t
      else if 0 <s RequestsPerSecond t then Second
      else Minute)"

type_synonym KeyType = string

definition KeyTypeGlobal :: KeyType where
  "KeyTypeGlobal = ''global''"

definition KeyTypeUser :: KeyType where
  "KeyTypeUser = ''user''"

definition KeyTypeIP :: KeyType where
  "KeyTypeIP = ''ip''"

definition KeyTypeAPI :: KeyType where
  "KeyTypeAPI = ''api''"

definition BuildKey :: "KeyType \<Rightarrow> string \<Rightarrow> string \<Rightarrow> string" where
  "BuildKey keyType identifier path =
     (let pfx = ''ratelimit:'' in
      if keyType = KeyTypeGlobal then pfx @ ''global''
      else if keyType = KeyTypeUser then
        (if path \<noteq> [] then pfx @ ''user:'' @ identifier @ '':api:'' @ path
         else pfx @ ''user:'' @ identifier)
      else if keyType = KeyTypeIP then pfx @ ''ip:'' @ identifier
      else if keyType = KeyTypeAPI then pfx @ ''api:'' @ path
      else pfx @ ''unknown:'' @ identifier)"

subsection \<open>ratelimit.go: the path matcher\<close>

text \<open>
  The loop of \<open>matchPath\<close> over the pattern's segments. It runs only when both lists
  have the same length; the last equation (the path has run out of segments) is the
  place where Go would index out of range, and is never reached from \<open>matchPath\<close>.
\<close>

fun matchParts :: "string list \<Rightarrow> string list \<Rightarrow> bool" where
  "matchParts [] pathParts = True"
| "matchParts (part # parts) (p # ps) =
     (if HasPrefix part '':'' then matchParts parts ps
      else if part \<noteq> p then False
      else matchParts parts ps)"
| "matchParts (part # parts) [] =
     (if HasPrefix part '':'' then matchParts parts [] else False)"

definition matchPath :: "string \<Rightarrow> string \<Rightarrow> bool" where
  "matchPath pattern path =
     (if pattern = path then True
      else if HasSuffix pattern ''/*'' then
        (let pfx = TrimSuffix pattern ''/*'' in HasPrefix path pfx)
      else if Contains pattern '':'' then
        (let patternParts = Split pattern CHR ''/'';
             pathParts = Split path CHR ''/''
         in if length patternParts \<noteq> length pathParts then False
            else matchParts patternParts pathParts)
      else False)"

subsection \<open>ratelimit.go: the in-process limiter\<close>

text \<open>\<open>t.Unix()\<close>: whole seconds since the epoch, rounded down.\<close>

definition Unix :: "int \<Rightarrow> int" where
  "Unix t = t div 1000000000"

record localCounter =
  count :: go_int
  resetTime :: int

record LocalLimiter =
  counters :: "string \<rightharpoonup> localCounter"

definition NewLocalLimiter :: LocalLimiter where
  "NewLocalLimiter = \<lparr> counters = Map.empty \<rparr>"

text \<open>
  \<open>(*LocalLimiter).Allow\<close>. The argument \<open>now\<close> is the value of \<open>time.Now()\<close>; the
  mutex makes the body one atomic step, so the limiter is passed in and returned.
\<close>

definition LocalLimiter_Allow ::
  "LocalLimiter \<Rightarrow> int \<Rightarrow> string \<Rightarrow> go_int \<Rightarrow> int \<Rightarrow> (bool \<times> go_int \<times> int) \<times> LocalLimiter"
where
  "LocalLimiter_Allow l now key limit window =
     (let renew = ((True, limit - 1, Unix (now + window)),
                   l\<lparr>counters := (counters l)(key \<mapsto> \<lparr>count = 1, resetTime = now + window\<rparr>)\<rparr>)
      in case counters l key of
           None \<Rightarrow> renew
         | Some counter \<Rightarrow>
             if resetTime counter < now then renew
             else if limit \<le>s count counter then ((False, 0, Unix (resetTime counter)), l)
             else
               (let counter' = counter\<lparr>count := count counter + 1\<rparr>
                in ((True, limit - count counter', Unix (resetTime counter')),
                    l\<lparr>counters := (counters l)(key \<mapsto> counter')\<rparr>)))"

text \<open>
  A sequence of \<open>Allow\<close> calls, each given as (time, key, window); the limit of a call
  is the one configured for its key, \<open>limit_of key\<close>.
\<close>

fun LocalLimiter_run ::
  "(string \<Rightarrow> go_int) \<Rightarrow> LocalLimiter \<Rightarrow> (int \<times> string \<times> int) list \<Rightarrow> LocalLimiter"
where
  "LocalLimiter_run limit_of l [] = l"
| "LocalLimiter_run limit_of l ((now, key, window) # calls) =
     LocalLimiter_run limit_of (snd (LocalLimiter_Allow l now key (limit_of key) window)) calls"

subsection \<open>Numbers of the store's scripts\<close>

text \<open>
  Lua's numbers are IEEE-754 doubles. Every number of the sliding-window script that
  reaches a result is an integer (a limit, a cardinality, a millisecond stamp), so a
  number is given here by its integer value, and the rounding is written out:
  \<open>tonumber x\<close> is the double nearest to the integer \<open>x\<close>, ties going to the even
  significand. It is \<open>x\<close> itself up to \<open>2^53\<close> in magnitude; beyond, a double keeps 53
  bits. A sum or difference of two such doubles is the exact result rounded the same way.
\<close>

fun bit_length :: "nat \<Rightarrow> nat" where
  "bit_length n = (if n = 0 then 0 else Suc (bit_length (n div 2)))"

text \<open>The multiple of \<open>u\<close> nearest to \<open>a\<close>, a tie going to the even multiple.\<close>

definition nearest_multiple :: "nat \<Rightarrow> nat \<Rightarrow> nat" where
  "nearest_multiple a u =
     (let q = a div u; r = a mod u
      in if u < 2 * r \<or> (u = 2 * r \<and> odd q) then (q + 1) * u else q * u)"

definition tonumber :: "int \<Rightarrow> int" where
  "tonumber x =
     (if \<bar>x\<bar> \<le> 2 ^ 53 then x
      else sgn x * int (nearest_multiple (nat \<bar>x\<bar>) (2 ^ (bit_length (nat \<bar>x\<bar>) - 53))))"

text \<open>
  Lua turns a number into text with \<open>%.14g\<close>, that is with 14 significant decimal
  digits. \<open>tostring x\<close> is the number that text denotes: two numbers print the same
  text exactly when \<open>tostring\<close> maps them to the same value.
\<close>

fun dec_length :: "nat \<Rightarrow> nat" where
  "dec_length n = (if n < 10 then 1 else Suc (dec_length (n div 10)))"

definition tostring :: "int \<Rightarrow> int" where
  "tostring x =
     (if \<bar>x\<bar> < 10 ^ 14 then x
      else sgn x * int (nearest_multiple (nat \<bar>x\<bar>) (10 ^ (dec_length (nat \<bar>x\<bar>) - 14))))"

subsection \<open>The store: one sorted set per key\<close>

text \<open>
  The member added by the script is the text \<open>now .. ':' .. math.random()\<close>; it is
  modelled as the pair of the stamp as printed and the value drawn (a token for the
  printed random number). A key holds its entries (member, score) and the store time in
  milliseconds at which it expires, if a time to live is set. A key without entries
  does not exist.
\<close>

type_synonym member = "int \<times> nat"

record zkey =
  entries :: "(member \<times> int) list"
  expires_at :: "int option"

definition absent :: zkey where
  "absent = \<lparr> entries = [], expires_at = None \<rparr>"

text \<open>
  The key as a command running at store time \<open>srv\<close> finds it: it is gone once the
  clock has passed its expiry time.
\<close>

definition expire_due :: "zkey \<Rightarrow> int \<Rightarrow> zkey" where
  "expire_due k srv =
     (case expires_at k of
        None \<Rightarrow> k
      | Some t \<Rightarrow> if t < srv then absent else k)"

text \<open>\<open>ZREMRANGEBYSCORE key -inf mx\<close>: both bounds are inclusive.\<close>

definition ZREMRANGEBYSCORE :: "zkey \<Rightarrow> int \<Rightarrow> zkey" where
  "ZREMRANGEBYSCORE k mx =
     (let es = filter (\<lambda>(m, score). \<not> score \<le> mx) (entries k)
      in if es = [] then absent else k\<lparr>entries := es\<rparr>)"

definition ZCARD :: "zkey \<Rightarrow> int" where
  "ZCARD k = int (length (entries k))"

text \<open>\<open>ZCOUNT key mn mx\<close>: both bounds are inclusive.\<close>

definition ZCOUNT :: "zkey \<Rightarrow> int \<Rightarrow> int \<Rightarrow> int" where
  "ZCOUNT k mn mx =
     int (length (filter (\<lambda>(m, score). mn \<le> score \<and> score \<le> mx) (entries k)))"

text \<open>\<open>ZADD key score member\<close>: a member already present only has its score replaced.\<close>

definition ZADD :: "zkey \<Rightarrow> int \<Rightarrow> member \<Rightarrow> zkey" where
  "ZADD k score m =
     (if m \<in> fst ` set (entries k)
      then k\<lparr>entries := map (\<lambda>(m', score'). if m' = m then (m', score) else (m', score'))
                             (entries k)\<rparr>
      else k\<lparr>entries := entries k @ [(m, score)]\<rparr>)"

text \<open>\<open>PEXPIRE key ttl\<close> at store time \<open>srv\<close>: a time to live of zero or less deletes the key.\<close>

definition PEXPIRE :: "zkey \<Rightarrow> int \<Rightarrow> int \<Rightarrow> zkey" where
  "PEXPIRE k ttl srv =
     (if entries k = [] then k
      else if ttl \<le> 0 then absent
      else k\<lparr>expires_at := Some (srv + ttl)\<rparr>)"

subsection \<open>sliding\_window.go: the sliding-window limiter\<close>

text \<open>
  The Lua script of \<open>SlidingWindowLimiter.Allow\<close>, run atomically by the store on the
  key \<open>KEYS[1]\<close>. The four arguments arrive as decimal text and become numbers by
  \<open>tonumber\<close>; \<open>srv\<close> is the store's clock while the script runs and \<open>rnd\<close> the value
  \<open>math.random()\<close> returns. The result is the first two elements of the reply and the
  key afterwards. The third element of the reply, \<open>retry_after\<close>, is computed from a
  read of the oldest entry and changes nothing; \<open>Allow\<close> discards it
  (\<open>_ = result[2].(int64)\<close>), and it is left out here.
\<close>

definition sliding_window_script ::
  "zkey \<Rightarrow> int \<Rightarrow> nat \<Rightarrow> int \<Rightarrow> int \<Rightarrow> int \<Rightarrow> int \<Rightarrow> (int \<times> int) \<times> zkey"
where
  "sliding_window_script k0 srv rnd argv1 argv2 argv3 argv4 =
     (let now = tonumber argv1;
          window_start = tonumber argv2;
          limit = tonumber argv3;
          window_ms = tonumber argv4;
          k1 = ZREMRANGEBYSCORE (expire_due k0 srv) window_start;
          cnt = tonumber (ZCARD k1)
      in if cnt < limit then
           (let k2 = ZADD k1 now (tostring now, rnd);
                k3 = PEXPIRE k2 window_ms srv
            in ((1, tonumber (tonumber (limit - cnt) - 1)), k3))
         else ((0, 0), k1))"

text \<open>
  What one round trip to the store can do: the script is not run and the call fails;
  the script runs and its reply arrives; the script runs and the reply is lost, so the
  call fails all the same.
\<close>

datatype round_trip = Unreachable | Served | ReplyLost

datatype store_error = StoreError

text \<open>The environment of one call of a store-backed limiter.\<close>

record store_call =
  now_ns :: int
  trip :: round_trip
  srv_ms :: int
  rnd :: nat

definition UnixMilli :: "int \<Rightarrow> int" where
  "UnixMilli t = t div 1000000"

text \<open>\<open>d.Milliseconds()\<close>: Go's integer division, which rounds towards zero.\<close>

definition Milliseconds :: "int \<Rightarrow> int" where
  "Milliseconds d = (if 0 \<le> d then d div 1000000 else - ((- d) div 1000000))"

type_synonym redis_store = "string \<Rightarrow> zkey"

text \<open>
  \<open>(*SlidingWindowLimiter).Allow\<close>. The reply's integers are read as \<open>int64\<close> and the
  second one converted to \<open>int\<close>. A number of the reply is at most \<open>2^63\<close>, and is
  \<open>2^63\<close> only for a limit within 512 of the largest \<open>int\<close>; the store's conversion of
  that number to a 64-bit integer gives the smallest one on x86-64, as \<open>word_of_int\<close> does.
\<close>

definition SlidingWindowLimiter_Allow ::
  "redis_store \<Rightarrow> store_call \<Rightarrow> string \<Rightarrow> go_int \<Rightarrow> int
     \<Rightarrow> (bool \<times> go_int \<times> int \<times> store_error option) \<times> redis_store"
where
  "SlidingWindowLimiter_Allow store c key limit window =
     (let now = now_ns c;
          windowStart = now - window;
          windowEnd = now + window;
          nowMs = UnixMilli now;
          windowStartMs = UnixMilli windowStart;
          windowMs = Milliseconds window;
          (result, k') = sliding_window_script (store key) (srv_ms c) (rnd c)
                           nowMs windowStartMs (sint limit) windowMs
      in case trip c of
           Unreachable \<Rightarrow> ((False, 0, 0, Some StoreError), store)
         | ReplyLost \<Rightarrow> ((False, 0, 0, Some StoreError), store(key := k'))
         | Served \<Rightarrow>
             (let allowed = (fst result = 1);
                  remaining = word_of_int (snd result);
                  resetTime = Unix windowEnd
              in ((allowed, remaining, resetTime, None), store(key := k'))))"

text \<open>
  \<open>(*SlidingWindowLimiter).GetCurrentCount\<close>: the entries with a score from the window
  start to now, both included. The command reads only.
\<close>

definition GetCurrentCount ::
  "redis_store \<Rightarrow> store_call \<Rightarrow> string \<Rightarrow> int \<Rightarrow> int \<times> store_error option"
where
  "GetCurrentCount store c key window =
     (let now = now_ns c;
          windowStart = now - window
      in case trip c of
           Served \<Rightarrow>
             (ZCOUNT (expire_due (store key) (srv_ms c))
                (tonumber (UnixMilli windowStart)) (tonumber (UnixMilli now)), None)
         | _ \<Rightarrow> (0, Some StoreError))"

text \<open>
  A serialized sequence of \<open>Allow\<close> calls on one key with one limit and window: the
  number of calls that return \<open>allowed = true\<close>.
\<close>

fun admitted ::
  "redis_store \<Rightarrow> string \<Rightarrow> go_int \<Rightarrow> int \<Rightarrow> store_call list \<Rightarrow> nat"
where
  "admitted store key limit window [] = 0"
| "admitted store key limit window (c # cs) =
     (let (r, store') = SlidingWindowLimiter_Allow store c key limit window
      in (if fst r then 1 else 0) + admitted store' key limit window cs)"

subsection \<open>ratelimit.go: the middleware\<close>

text \<open>
  \<open>strconv.FormatInt(i, 10)\<close> and \<open>strconv.Itoa(i)\<close>: the decimal text of an integer.
\<close>

fun digits :: "nat \<Rightarrow> string" where
  "digits n =
     (if n < 10 then [''0123456789'' ! n]
      else digits (n div 10) @ [''0123456789'' ! (n mod 10)])"

definition FormatInt :: "int \<Rightarrow> string" where
  "FormatInt i = (if i < 0 then CHR ''-'' # digits (nat (- i)) else digits (nat i))"

definition Itoa :: "go_int \<Rightarrow> string" where
  "Itoa i = FormatInt (sint i)"

definition HeaderRateLimitLimit :: string where
  "HeaderRateLimitLimit = ''X-RateLimit-Limit''"

definition HeaderRateLimitRemaining :: string where
  "HeaderRateLimitRemaining = ''X-RateLimit-Remaining''"

definition HeaderRateLimitReset :: string where
  "HeaderRateLimitReset = ''X-RateLimit-Reset''"

definition HeaderRetryAfter :: string where
  "HeaderRetryAfter = ''Retry-After''"

definition StatusTooManyRequests :: nat where
  "StatusTooManyRequests = 429"

text \<open>
  What the middleware reads of a request: the method, the route pattern the framework
  matched (\<open>c.FullPath()\<close>, empty when no route matched), the path of the URL, the
  context value stored under \<open>user_id\<close> (if any; it need not be a string) and the
  client address the framework resolves.
\<close>

datatype ctx_value = StringValue string | OtherValue

record request =
  req_method :: string
  fullPath :: string
  urlPath :: string
  user_id :: "ctx_value option"
  clientIP :: string

text \<open>
  What the middleware does to a response: the headers it sets, whether it passes the
  request on (\<open>c.Next()\<close>) or aborts with a status and a JSON object, and the requests
  it reports to the metrics recorder (method, route, status, user).
\<close>

datatype json = JString string | JInt int

datatype outcome = Next | AbortWithStatusJSON nat "(string \<times> json) list"

record response =
  headers :: "string \<rightharpoonup> string"
  outcome :: outcome
  recorded :: "(string \<times> string \<times> nat \<times> string) list"

text \<open>\<open>c.Header(key, value)\<close> of the framework: an empty value removes the header.\<close>

definition Header :: "(string \<rightharpoonup> string) \<Rightarrow> string \<Rightarrow> string \<Rightarrow> (string \<rightharpoonup> string)" where
  "Header h key v = (if v = [] then h(key := None) else h(key \<mapsto> v))"

datatype redis_client = RedisClient

record SlidingWindowLimiter =
  client :: redis_client

definition NewSlidingWindowLimiter :: "redis_client \<Rightarrow> SlidingWindowLimiter" where
  "NewSlidingWindowLimiter cl = \<lparr> client = cl \<rparr>"

text \<open>Pointers that may be nil (\<open>redisClient\<close>, \<open>slidingWindow\<close>) are options.\<close>

record RateLimitMiddleware =
  config :: Config
  redisClient :: "redis_client option"
  slidingWindow :: "SlidingWindowLimiter option"
  localLimiter :: LocalLimiter
  useLocal :: bool

definition New :: "redis_client option \<Rightarrow> Config option \<Rightarrow> RateLimitMiddleware" where
  "New rc cfg =
     (let cfg' = (case cfg of None \<Rightarrow> DefaultConfig | Some given \<Rightarrow> given);
          m = \<lparr> config = cfg', redisClient = rc, slidingWindow = None,
                localLimiter = NewLocalLimiter, useLocal = (rc = None) \<rparr>
      in case rc of
           None \<Rightarrow> m
         | Some cl \<Rightarrow> m\<lparr>slidingWindow := Some (NewSlidingWindowLimiter cl)\<rparr>)"

text \<open>
  The running system: the middleware, the store it talks to, and the number of recovery
  checkers (\<open>go m.scheduleRedisRecoveryCheck()\<close>) that are asleep.
\<close>

record system =
  mw :: RateLimitMiddleware
  redis :: redis_store
  checkers :: nat

definition boot :: "redis_client option \<Rightarrow> Config option \<Rightarrow> redis_store \<Rightarrow> system" where
  "boot rc cfg store = \<lparr> mw = New rc cfg, redis = store, checkers = 0 \<rparr>"

text \<open>
  The environment of one request: the feature flag \<open>rate_limiting\<close>, the order in which
  \<open>range\<close> visits the patterns of \<open>config.API\<close>, the environment of the store call, and
  the values of \<open>time.Now()\<close> in \<open>LocalLimiter.Allow\<close>, in the fail-open branch of
  \<open>checkLimit\<close> and in the denial branch of the handler.
\<close>

record env =
  feature_on :: bool
  api_order :: "string list"
  shared :: store_call
  t_local :: int
  t_failopen :: int
  t_retry :: int

text \<open>
  The loop \<open>for pattern, tier := range m.config.API\<close> of \<open>determineTierAndKey\<close>, along
  the order of this evaluation: the tier of the first pattern visited that matches.
\<close>

fun range_API :: "(string \<rightharpoonup> TierConfig) \<Rightarrow> string list \<Rightarrow> string \<Rightarrow> TierConfig option" where
  "range_API api [] path = None"
| "range_API api (pattern # rest) path =
     (case api pattern of
        None \<Rightarrow> range_API api rest path
      | Some tier \<Rightarrow> if matchPath pattern path then Some tier else range_API api rest path)"

text \<open>An order in which \<open>range\<close> can visit the map: every key once.\<close>

definition visits :: "(string \<rightharpoonup> TierConfig) \<Rightarrow> string list \<Rightarrow> bool" where
  "visits api order = (distinct order \<and> set order = dom api)"

definition determineTierAndKey ::
  "RateLimitMiddleware \<Rightarrow> string list \<Rightarrow> request \<Rightarrow> TierConfig option \<times> string"
where
  "determineTierAndKey m order req =
     (let path = (if fullPath req = [] then urlPath req else fullPath req);
          by_ip = (Some (IP (config m)), BuildKey KeyTypeIP (clientIP req) [])
      in case range_API (API (config m)) order path of
           Some tier \<Rightarrow> (Some tier, BuildKey KeyTypeAPI [] path)
         | None \<Rightarrow>
             (case user_id req of
                Some (StringValue uid) \<Rightarrow>
                  if uid \<noteq> [] then (Some (User (config m)), BuildKey KeyTypeUser uid [])
                  else by_ip
              | _ \<Rightarrow> by_ip))"

definition checkLimit ::
  "system \<Rightarrow> env \<Rightarrow> string \<Rightarrow> TierConfig \<Rightarrow> (bool \<times> go_int \<times> int) \<times> system"
where
  "checkLimit s e key tier =
     (let limit = GetEffectiveLimit tier;
          window = GetEffectiveWindow tier;
          m = mw s
      in if useLocal m \<or> slidingWindow m = None then
           (let (res, l') = LocalLimiter_Allow (localLimiter m) (t_local e) key limit window
            in (res, s\<lparr>mw := m\<lparr>localLimiter := l'\<rparr>\<rparr>))
         else
           (let ((allowed, remaining, resetTime, err), store') =
                  SlidingWindowLimiter_Allow (redis s) (shared e) key limit window
            in if err \<noteq> None then
                 (if FallbackToLocal (config m) then
                    (let (res, l') =
                           LocalLimiter_Allow (localLimiter m) (t_local e) key limit window
                     in (res, s\<lparr>mw := m\<lparr>useLocal := True, localLimiter := l'\<rparr>,
                               redis := store', checkers := Suc (checkers s)\<rparr>))
                  else ((True, limit, Unix (t_failopen e + window)), s\<lparr>redis := store'\<rparr>))
               else ((allowed, remaining, resetTime), s\<lparr>redis := store'\<rparr>)))"

text \<open>
  One recovery checker waking up after its 30 seconds; \<open>ping_ok\<close> tells whether the
  store answers the ping. A failed ping starts the next checker.
\<close>

definition scheduleRedisRecoveryCheck :: "system \<Rightarrow> bool \<Rightarrow> system" where
  "scheduleRedisRecoveryCheck s ping_ok =
     (if redisClient (mw s) = None then s\<lparr>checkers := checkers s - 1\<rparr>
      else if ping_ok then s\<lparr>mw := (mw s)\<lparr>useLocal := False\<rparr>, checkers := checkers s - 1\<rparr>
      else s)"

definition SetConfig :: "system \<Rightarrow> Config \<Rightarrow> system" where
  "SetConfig s cfg = s\<lparr>mw := (mw s)\<lparr>config := cfg\<rparr>\<rparr>"

definition IsUsingLocalFallback :: "system \<Rightarrow> bool" where
  "IsUsingLocalFallback s = useLocal (mw s)"

text \<open>The handler \<open>Middleware()\<close> returns, on one request.\<close>

definition Middleware :: "system \<Rightarrow> env \<Rightarrow> request \<Rightarrow> response \<times> system" where
  "Middleware s e req =
     (let pass = \<lparr> headers = Map.empty, outcome = Next, recorded = [] \<rparr>
      in if \<not> feature_on e then (pass, s)
         else if \<not> Enabled (config (mw s)) then (pass, s)
         else
           (case determineTierAndKey (mw s) (api_order e) req of
              (None, key) \<Rightarrow> (pass, s)
            | (Some tierConfig, key) \<Rightarrow>
                (let ((allowed, remaining, resetTime), s') = checkLimit s e key tierConfig;
                     h1 = Header Map.empty HeaderRateLimitLimit
                            (Itoa (GetEffectiveLimit tierConfig));
                     h2 = Header h1 HeaderRateLimitRemaining (Itoa remaining);
                     h3 = Header h2 HeaderRateLimitReset (FormatInt resetTime)
                 in if \<not> allowed then
                      (let retryAfter = resetTime - Unix (t_retry e);
                           retryAfter = (if retryAfter < 1 then 1 else retryAfter);
                           h4 = Header h3 HeaderRetryAfter (FormatInt retryAfter)
                       in (\<lparr> headers = h4,
                              outcome = AbortWithStatusJSON StatusTooManyRequests
                                [(''error'', JString ''Rate limit exceeded''),
                                 (''retry_after'', JInt retryAfter)],
                              recorded = [(req_method req, fullPath req,
                                           StatusTooManyRequests, [])] \<rparr>, s'))
                    else (\<lparr> headers = h3, outcome = Next, recorded = [] \<rparr>, s'))))"

text \<open>What can happen to a running system, and a history of such events.\<close>

datatype event = Request env request | RecoveryCheck bool | Publish Config

fun step :: "system \<Rightarrow> event \<Rightarrow> system" where
  "step s (Request e req) = snd (Middleware s e req)"
| "step s (RecoveryCheck ping_ok) = scheduleRedisRecoveryCheck s ping_ok"
| "step s (Publish cfg) = SetConfig s cfg"

definition run :: "system \<Rightarrow> event list \<Rightarrow> system" where
  "run s evs = foldl step s evs"

subsection \<open>Notions used to state the sliding-window properties\<close>

text \<open>The store in which no key exists.\<close>

definition empty_store :: redis_store where
  "empty_store = (\<lambda>key. absent)"

text \<open>
  The script of a call on the key it finds, and the cardinality the script counts
  (after the expiry and the purge).
\<close>

definition script_at ::
  "redis_store \<Rightarrow> store_call \<Rightarrow> string \<Rightarrow> go_int \<Rightarrow> int \<Rightarrow> (int \<times> int) \<times> zkey"
where
  "script_at st c key L W =
     sliding_window_script (st key) (srv_ms c) (rnd c) (UnixMilli (now_ns c))
       (UnixMilli (now_ns c - W)) (sint L) (Milliseconds W)"

definition window_count :: "zkey \<Rightarrow> store_call \<Rightarrow> int \<Rightarrow> int" where
  "window_count k c W =
     tonumber (ZCARD (ZREMRANGEBYSCORE (expire_due k (srv_ms c))
                        (tonumber (UnixMilli (now_ns c - W)))))"

text \<open>
  Two calls that the store serves: one 1.5 ms after the epoch, one 1001.2 ms after it,
  that is 999.7 ms later.
\<close>

definition early_call :: store_call where
  "early_call = \<lparr> now_ns = 1500000, trip = Served, srv_ms = 2, rnd = 0 \<rparr>"

definition late_call :: store_call where
  "late_call = \<lparr> now_ns = 1001200000, trip = Served, srv_ms = 1001, rnd = 1 \<rparr>"

text \<open>
  The invariant of the counter map: every record holds a count between 1 and the limit
  of its key.
\<close>

definition counts_within :: "(string \<Rightarrow> go_int) \<Rightarrow> LocalLimiter \<Rightarrow> bool" where
  "counts_within limit_of l =
     (\<forall>k c. counters l k = Some c \<longrightarrow> 1 \<le>s count c \<and> count c \<le>s limit_of k)"

subsection \<open>Concrete inputs for the examples\<close>

text \<open>
  An unauthenticated \<open>GET /api/v1/lab\<close> from 203.0.113.9; an environment at the epoch
  with the feature switched on and a store that answers; the same with the store
  unreachable; the default configuration with the limit of the \<open>ip\<close> tier set to zero,
  and with the local fallback switched off.
\<close>

definition example_request :: request where
  "example_request =
     \<lparr> req_method = ''GET'', fullPath = ''/api/v1/lab'', urlPath = ''/api/v1/lab'',
       user_id = None, clientIP = ''203.0.113.9'' \<rparr>"

definition example_env :: env where
  "example_env =
     \<lparr> feature_on = True, api_order = [],
       shared = \<lparr> now_ns = 0, trip = Served, srv_ms = 0, rnd = 0 \<rparr>,
       t_local = 0, t_failopen = 0, t_retry = 0 \<rparr>"

definition outage_env :: env where
  "outage_env = example_env\<lparr>shared := (shared example_env)\<lparr>trip := Unreachable\<rparr>\<rparr>"

definition zero_limit_config :: Config where
  "zero_limit_config = DefaultConfig\<lparr>IP := (IP DefaultConfig)\<lparr>RequestsPerMinute := 0\<rparr>\<rparr>"

definition no_fallback_config :: Config where
  "no_fallback_config = DefaultConfig\<lparr>FallbackToLocal := False\<rparr>"

subsection \<open>Notions used to state the dispatcher properties\<close>

text \<open>The path \<open>determineTierAndKey\<close> matches the patterns against.\<close>

definition routed_path :: "request \<Rightarrow> string" where
  "routed_path req = (if fullPath req = [] then urlPath req else fullPath req)"

text \<open>The tier and key of a request that no API pattern matches.\<close>

definition by_identity :: "RateLimitMiddleware \<Rightarrow> request \<Rightarrow> TierConfig option \<times> string" where
  "by_identity m req =
     (case user_id req of
        Some (StringValue uid) \<Rightarrow>
          if uid \<noteq> [] then (Some (User (config m)), BuildKey KeyTypeUser uid [])
          else (Some (IP (config m)), BuildKey KeyTypeIP (clientIP req) [])
      | _ \<Rightarrow> (Some (IP (config m)), BuildKey KeyTypeIP (clientIP req) []))"

text \<open>
  \<open>checkLimit\<close> answers from the in-process limiter: its result is the one of
  \<open>LocalLimiter.Allow\<close>, and nothing but that limiter changes.
\<close>

definition served_locally :: "system \<Rightarrow> env \<Rightarrow> string \<Rightarrow> TierConfig \<Rightarrow> bool" where
  "served_locally s e key tier =
     (checkLimit s e key tier =
        (fst (LocalLimiter_Allow (localLimiter (mw s)) (t_local e) key
                (GetEffectiveLimit tier) (GetEffectiveWindow tier)),
         s\<lparr>mw := (mw s)\<lparr>localLimiter :=
                snd (LocalLimiter_Allow (localLimiter (mw s)) (t_local e) key
                       (GetEffectiveLimit tier) (GetEffectiveWindow tier))\<rparr>\<rparr>))"

text \<open>The state of a system that has no store client, talking to \<open>store\<close>.\<close>

definition local_only :: "redis_store \<Rightarrow> system \<Rightarrow> bool" where
  "local_only store s =
     (useLocal (mw s) \<and> slidingWindow (mw s) = None \<and> redisClient (mw s) = None
      \<and> redis s = store)"

text \<open>
  Two overlapping patterns with different tiers, and a request for \<open>/a/c/b\<close> that no
  route of the framework matched.
\<close>

definition overlap_config :: Config where
  "overlap_config =
     DefaultConfig\<lparr>API := [''/a/*'' \<mapsto> Global DefaultConfig, ''/a/:x/b'' \<mapsto> User DefaultConfig]\<rparr>"

definition overlap_request :: request where
  "overlap_request =
     \<lparr> req_method = ''GET'', fullPath = [], urlPath = ''/a/c/b'',
       user_id = None, clientIP = ''203.0.113.9'' \<rparr>"

section \<open>Properties\<close>

subsection \<open>Key builder\<close>

text \<open>
  Every key starts with \<open>ratelimit:\<close>; the byte after it is the first letter of the
  tier's name.
\<close>

lemma BuildKey_tag:
  "BuildKey KeyTypeGlobal i p ! 10 = CHR ''g''"
  "BuildKey KeyTypeUser i p ! 10 = CHR ''u''"
  "BuildKey KeyTypeIP i p ! 10 = CHR ''i''"
  "BuildKey KeyTypeAPI i p ! 10 = CHR ''a''"
  by (simp_all add: BuildKey_def Let_def KeyTypeGlobal_def KeyTypeUser_def KeyTypeIP_def
      KeyTypeAPI_def)

text \<open>
  Claim C8. \<open>BuildKey\<close> never collides across tiers: for two inputs whose key types are
  distinct members of \<open>{global, user, ip, api}\<close> the keys differ, whatever the
  identifiers and paths are.
\<close>

theorem BuildKey_distinct_tiers:
  assumes "t1 \<in> {KeyTypeGlobal, KeyTypeUser, KeyTypeIP, KeyTypeAPI}"
    and "t2 \<in> {KeyTypeGlobal, KeyTypeUser, KeyTypeIP, KeyTypeAPI}"
    and "t1 \<noteq> t2"
  shows "BuildKey t1 id1 path1 \<noteq> BuildKey t2 id2 path2"
proof
  assume "BuildKey t1 id1 path1 = BuildKey t2 id2 path2"
  then have "BuildKey t1 id1 path1 ! 10 = BuildKey t2 id2 path2 ! 10"
    by simp
  with assms show False
    by (auto simp: BuildKey_tag)
qed

theorem BuildKey_distinct_tiers_witness:
  "KeyTypeUser \<in> {KeyTypeGlobal, KeyTypeUser, KeyTypeIP, KeyTypeAPI}
   \<and> KeyTypeAPI \<in> {KeyTypeGlobal, KeyTypeUser, KeyTypeIP, KeyTypeAPI}
   \<and> KeyTypeUser \<noteq> KeyTypeAPI
   \<and> BuildKey KeyTypeUser ''api'' ''/x'' \<noteq> BuildKey KeyTypeAPI '''' ''user:api:/x''"
  using BuildKey_distinct_tiers [of KeyTypeUser KeyTypeAPI "''api''" "''/x''" "''''" "''user:api:/x''"]
  by (simp add: KeyTypeUser_def KeyTypeAPI_def)

subsection \<open>Path matcher\<close>

text \<open>
  \<open>strings.Split\<close> on the empty string and around a trailing separator, the cases of
  \<open>TestMatchPath\<close> in \<open>ratelimit_test.go\<close>, and parameter patterns against paths
  that end in a separator.
\<close>

lemma Split_examples:
  "Split [] CHR ''/'' = [] # []"
  "Split ''/a/b/'' CHR ''/'' = [] # [''a'', ''b'', []]"
  "Split ''/api/v1/lab/:uuid'' CHR ''/'' = [] # [''api'', ''v1'', ''lab'', '':uuid'']"
  by simp_all

lemma TestMatchPath:
  "matchPath ''/api/v1/test'' ''/api/v1/test''"
  "\<not> matchPath ''/api/v1/test'' ''/api/v1/other''"
  "matchPath ''/api/v1/edge/*'' ''/api/v1/edge/device''"
  "matchPath ''/api/v1/edge/*'' ''/api/v1/edge/device/action''"
  "\<not> matchPath ''/api/v1/edge/*'' ''/api/v1/other/device''"
  "matchPath ''/api/v1/lab/:uuid'' ''/api/v1/lab/123''"
  "\<not> matchPath ''/api/v1/lab/:uuid'' ''/api/v1/lab/123/extra''"
  by (simp_all add: matchPath_def HasSuffix_def TrimSuffix_def HasPrefix_def)

lemma matchPath_trailing_separator:
  "matchPath ''/a/:x'' ''/a/''"
  "matchPath ''/:x'' ''/''"
  "\<not> matchPath ''/a/:x'' ''/a/b/''"
  "\<not> matchPath ''/a/:x/'' ''/a/b''"
  "matchPath ''/a/*'' ''/a/''"
  by (simp_all add: matchPath_def HasSuffix_def TrimSuffix_def HasPrefix_def)

lemma HasSuffix_append: "HasSuffix (p @ s) s"
  by (simp add: HasSuffix_def)

lemma TrimSuffix_append: "TrimSuffix (p @ s) s = p"
  by (simp add: TrimSuffix_def HasSuffix_append)

lemma HasPrefix_append: "HasPrefix (p @ s) p"
  by (simp add: HasPrefix_def)

text \<open>
  Claim C2, as the code has it. For a trailing-wildcard pattern \<open>p/*\<close>, \<open>matchPath\<close>
  matches exactly the paths that start with the string \<open>p\<close>, the part before \<open>/*\<close>:
  so \<open>/api/v1/edge/*\<close> matches \<open>/api/v1/edge/device/x\<close>, and it matches the bare
  path \<open>/api/v1/edge\<close> as well.
\<close>

theorem matchPath_trailing_wildcard:
  "matchPath (p @ ''/*'') path = HasPrefix path p
   \<and> matchPath ''/api/v1/edge/*'' ''/api/v1/edge/device/x''
   \<and> matchPath ''/api/v1/edge/*'' ''/api/v1/edge''"
proof -
  have general: "matchPath (q @ ''/*'') path' = HasPrefix path' q" for q path'
    using HasPrefix_append [of q "''/*''"]
    by (auto simp: matchPath_def HasSuffix_append TrimSuffix_append)
  have "matchPath (''/api/v1/edge'' @ ''/*'') ''/api/v1/edge/device/x''"
    unfolding general by (simp add: HasPrefix_def)
  moreover have "matchPath (''/api/v1/edge'' @ ''/*'') ''/api/v1/edge''"
    unfolding general by (simp add: HasPrefix_def)
  ultimately show ?thesis
    using general [of p path] by simp
qed

text \<open>
  The claim as the specification words it fails: the bare path \<open>/api/v1/edge\<close> is
  matched by \<open>/api/v1/edge/*\<close>.
\<close>

theorem matchPath_bare_prefix_counterexample:
  "\<not> (matchPath ''/api/v1/edge/*'' ''/api/v1/edge/device/x''
      \<and> \<not> matchPath ''/api/v1/edge/*'' ''/api/v1/edge'')"
  by (simp add: matchPath_def HasSuffix_def TrimSuffix_def HasPrefix_def)

subsection \<open>In-process limiter\<close>

lemma sint_succ_below:
  fixes a b :: go_int
  assumes "a <s b"
  shows "sint (a + 1) = sint a + 1"
proof -
  from assms have "sint a < sint b"
    by (simp add: word_sless_alt)
  moreover have "sint b < 2 ^ 63"
    using sint_lt [of b] by simp
  moreover have "- (2 ^ 63) \<le> sint a"
    using sint_ge [of a] by simp
  ultimately have "signed_take_bit 63 (sint a + 1) = sint a + 1"
    by (intro signed_take_bit_int_eq_self) auto
  then show ?thesis
    by (simp add: sint_word_ariths)
qed

text \<open>The three branches of \<open>LocalLimiter.Allow\<close>, one lemma each.\<close>

lemma LocalLimiter_Allow_renew:
  assumes "counters l key = None \<or> (\<exists>c. counters l key = Some c \<and> resetTime c < now)"
  shows "LocalLimiter_Allow l now key limit window =
           ((True, limit - 1, Unix (now + window)),
            l\<lparr>counters := (counters l)(key \<mapsto> \<lparr>count = 1, resetTime = now + window\<rparr>)\<rparr>)"
  using assms by (auto simp: LocalLimiter_Allow_def Let_def)

lemma LocalLimiter_Allow_deny:
  assumes "counters l key = Some c" and "\<not> resetTime c < now" and "limit \<le>s count c"
  shows "LocalLimiter_Allow l now key limit window = ((False, 0, Unix (resetTime c)), l)"
  using assms by (simp add: LocalLimiter_Allow_def Let_def)

lemma LocalLimiter_Allow_count:
  assumes "counters l key = Some c" and "\<not> resetTime c < now" and "\<not> limit \<le>s count c"
  shows "LocalLimiter_Allow l now key limit window =
           ((True, limit - (count c + 1), Unix (resetTime c)),
            l\<lparr>counters := (counters l)(key \<mapsto> c\<lparr>count := count c + 1\<rparr>)\<rparr>)"
  using assms by (simp add: LocalLimiter_Allow_def Let_def)

lemma counts_within_Allow:
  assumes inv: "counts_within limit_of l" and pos: "1 \<le>s limit_of key"
  shows "counts_within limit_of (snd (LocalLimiter_Allow l now key (limit_of key) window))"
proof (cases "counters l key")
  case None
  then have "LocalLimiter_Allow l now key (limit_of key) window =
      ((True, limit_of key - 1, Unix (now + window)),
       l\<lparr>counters := (counters l)(key \<mapsto> \<lparr>count = 1, resetTime = now + window\<rparr>)\<rparr>)"
    by (intro LocalLimiter_Allow_renew) simp
  with inv pos show ?thesis
    by (simp add: counts_within_def)
next
  case (Some c)
  show ?thesis
  proof (cases "resetTime c < now")
    case True
    with Some have "LocalLimiter_Allow l now key (limit_of key) window =
        ((True, limit_of key - 1, Unix (now + window)),
         l\<lparr>counters := (counters l)(key \<mapsto> \<lparr>count = 1, resetTime = now + window\<rparr>)\<rparr>)"
      by (intro LocalLimiter_Allow_renew) simp
    with inv pos show ?thesis
      by (simp add: counts_within_def)
  next
    case live: False
    show ?thesis
    proof (cases "limit_of key \<le>s count c")
      case True
      with Some live inv show ?thesis
        by (simp add: LocalLimiter_Allow_deny)
    next
      case False
      then have below: "count c <s limit_of key"
        by (simp add: word_sless_alt word_sle_eq)
      have old: "1 \<le>s count c"
        using inv Some by (simp add: counts_within_def)
      have step: "sint (count c + 1) = sint (count c) + 1"
        using below by (rule sint_succ_below)
      have "1 \<le>s count c + 1" and "count c + 1 \<le>s limit_of key"
        using below old step by (simp_all add: word_sless_alt word_sle_eq)
      with Some live False inv show ?thesis
        by (simp add: LocalLimiter_Allow_count counts_within_def)
    qed
  qed
qed

lemma counts_within_run:
  assumes "counts_within limit_of l" and "\<forall>k. 1 \<le>s limit_of k"
  shows "counts_within limit_of (LocalLimiter_run limit_of l calls)"
  using assms
proof (induction calls arbitrary: l)
  case Nil
  then show ?case by simp
next
  case (Cons call calls)
  obtain now key window where call: "call = (now, key, window)"
    by (cases call) auto
  from Cons.prems have "counts_within limit_of (snd (LocalLimiter_Allow l now key (limit_of key) window))"
    by (intro counts_within_Allow) auto
  with Cons.IH Cons.prems(2) show ?case
    by (simp add: call)
qed

text \<open>
  Claim C7. \<open>LocalLimiter.Allow(key, limit, window)\<close> is the fixed-window rule: with no
  record for the key, or with \<open>now\<close> past the record's reset time, it stores
  \<open>(1, now + window)\<close> and returns \<open>(true, limit - 1, (now + window).Unix())\<close>;
  otherwise, if \<open>count \<ge> limit\<close>, it returns \<open>(false, 0, reset_time.Unix())\<close> and leaves
  the limiter as it is; otherwise it increments the count and returns
  \<open>(true, limit - count, reset_time.Unix())\<close> for the incremented count. Consequently,
  when every key's limit is at least 1, after any sequence of calls on a new limiter
  every record's count lies between 1 and the limit of its key.
\<close>

theorem LocalLimiter_Allow_fixed_window:
  "((counters l key = None \<or> (\<exists>c. counters l key = Some c \<and> resetTime c < now)) \<longrightarrow>
      LocalLimiter_Allow l now key limit window =
        ((True, limit - 1, Unix (now + window)),
         l\<lparr>counters := (counters l)(key \<mapsto> \<lparr>count = 1, resetTime = now + window\<rparr>)\<rparr>))
   \<and> (\<forall>c. counters l key = Some c \<and> \<not> resetTime c < now \<and> limit \<le>s count c \<longrightarrow>
      LocalLimiter_Allow l now key limit window = ((False, 0, Unix (resetTime c)), l))
   \<and> (\<forall>c. counters l key = Some c \<and> \<not> resetTime c < now \<and> count c <s limit \<longrightarrow>
      LocalLimiter_Allow l now key limit window =
        ((True, limit - (count c + 1), Unix (resetTime c)),
         l\<lparr>counters := (counters l)(key \<mapsto> c\<lparr>count := count c + 1\<rparr>)\<rparr>))
   \<and> ((\<forall>k. 1 \<le>s limit_of k) \<longrightarrow>
      (\<forall>k c. counters (LocalLimiter_run limit_of NewLocalLimiter calls) k = Some c \<longrightarrow>
         1 \<le>s count c \<and> count c \<le>s limit_of k))"
proof (intro conjI allI impI)
  assume "counters l key = None \<or> (\<exists>c. counters l key = Some c \<and> resetTime c < now)"
  then show "LocalLimiter_Allow l now key limit window =
        ((True, limit - 1, Unix (now + window)),
         l\<lparr>counters := (counters l)(key \<mapsto> \<lparr>count = 1, resetTime = now + window\<rparr>)\<rparr>)"
    by (rule LocalLimiter_Allow_renew)
next
  fix c
  assume "counters l key = Some c \<and> \<not> resetTime c < now \<and> limit \<le>s count c"
  then show "LocalLimiter_Allow l now key limit window = ((False, 0, Unix (resetTime c)), l)"
    by (simp add: LocalLimiter_Allow_deny)
next
  fix c
  assume "counters l key = Some c \<and> \<not> resetTime c < now \<and> count c <s limit"
  then show "LocalLimiter_Allow l now key limit window =
        ((True, limit - (count c + 1), Unix (resetTime c)),
         l\<lparr>counters := (counters l)(key \<mapsto> c\<lparr>count := count c + 1\<rparr>)\<rparr>)"
    by (intro LocalLimiter_Allow_count) (simp_all add: word_sless_alt word_sle_eq)
next
  fix k c
  assume pos: "\<forall>k. 1 \<le>s limit_of k"
    and rec: "counters (LocalLimiter_run limit_of NewLocalLimiter calls) k = Some c"
  have "counts_within limit_of NewLocalLimiter"
    by (simp add: counts_within_def NewLocalLimiter_def)
  with pos have "counts_within limit_of (LocalLimiter_run limit_of NewLocalLimiter calls)"
    by (intro counts_within_run) auto
  with rec show "1 \<le>s count c" and "count c \<le>s limit_of k"
    by (auto simp: counts_within_def)
qed

theorem LocalLimiter_Allow_fixed_window_witness:
  "LocalLimiter_Allow NewLocalLimiter 0 ''k'' 2 Second
     = ((True, 1, 1),
        NewLocalLimiter\<lparr>counters := (counters NewLocalLimiter)(''k'' \<mapsto> \<lparr>count = 1, resetTime = Second\<rparr>)\<rparr>)
   \<and> LocalLimiter_Allow \<lparr>counters = [''k'' \<mapsto> \<lparr>count = 2, resetTime = Second\<rparr>]\<rparr> 5 ''k'' 2 Second
     = ((False, 0, 1), \<lparr>counters = [''k'' \<mapsto> \<lparr>count = 2, resetTime = Second\<rparr>]\<rparr>)
   \<and> fst (LocalLimiter_Allow \<lparr>counters = [''k'' \<mapsto> \<lparr>count = 1, resetTime = Second\<rparr>]\<rparr> 5 ''k'' 2 Second)
     = (True, 0, 1)
   \<and> counters (LocalLimiter_run (\<lambda>key. 2) NewLocalLimiter
         [(0, ''k'', Second), (1, ''k'', Second), (2, ''k'', Second)]) ''k''
       = Some \<lparr>count = 2, resetTime = Second\<rparr>
   \<and> (1 :: go_int) \<le>s 2 \<and> (2 :: go_int) \<le>s 2"
proof -
  let ?calls = "[(0, ''k'', Second), (1, ''k'', Second), (2 :: int, ''k'', Second)]"
  let ?full = "\<lparr>counters = [''k'' \<mapsto> \<lparr>count = 2 :: go_int, resetTime = Second\<rparr>]\<rparr>"
  let ?half = "\<lparr>counters = [''k'' \<mapsto> \<lparr>count = 1 :: go_int, resetTime = Second\<rparr>]\<rparr>"
  have ran: "counters (LocalLimiter_run (\<lambda>key. 2) NewLocalLimiter ?calls) ''k''
       = Some \<lparr>count = 2, resetTime = Second\<rparr>"
    by (simp add: LocalLimiter_Allow_def NewLocalLimiter_def Second_def Let_def word_sle_eq)
  note new = LocalLimiter_Allow_fixed_window
    [where l = NewLocalLimiter and key = "''k''" and now = 0 and limit = 2 and window = Second
       and limit_of = "\<lambda>key. 2" and calls = ?calls]
  note full = LocalLimiter_Allow_fixed_window
    [where l = ?full and key = "''k''" and now = 5 and limit = 2 and window = Second
       and limit_of = "\<lambda>key. 2" and calls = ?calls]
  note half = LocalLimiter_Allow_fixed_window
    [where l = ?half and key = "''k''" and now = 5 and limit = 2 and window = Second
       and limit_of = "\<lambda>key. 2" and calls = ?calls]
  have "LocalLimiter_Allow NewLocalLimiter 0 ''k'' 2 Second
     = ((True, 1, 1),
        NewLocalLimiter\<lparr>counters := (counters NewLocalLimiter)(''k'' \<mapsto> \<lparr>count = 1, resetTime = Second\<rparr>)\<rparr>)"
    using new by (simp add: NewLocalLimiter_def Unix_def Second_def)
  moreover have "LocalLimiter_Allow ?full 5 ''k'' 2 Second = ((False, 0, 1), ?full)"
    using full by (simp add: Unix_def Second_def word_sle_eq)
  moreover have "fst (LocalLimiter_Allow ?half 5 ''k'' 2 Second) = (True, 0, 1)"
    using half by (simp add: Unix_def Second_def word_sless_alt)
  moreover have "(1 :: go_int) \<le>s 2 \<and> (2 :: go_int) \<le>s 2"
    using new ran by (simp add: word_sle_eq)
  ultimately show ?thesis
    using ran by simp
qed

subsection \<open>Sliding-window limiter\<close>

declare bit_length.simps [simp del]

declare dec_length.simps [simp del]

lemma tonumber_small: "\<bar>x\<bar> \<le> 2 ^ 53 \<Longrightarrow> tonumber x = x"
  by (simp add: tonumber_def)

lemma tonumber_nonneg: "0 \<le> x \<Longrightarrow> 0 \<le> tonumber x"
  by (simp add: tonumber_def sgn_if)

lemma tonumber_not_negative: "0 \<le> x \<Longrightarrow> \<not> tonumber x < 0"
  using tonumber_nonneg [of x] by simp

lemma tonumber_nonpos: "x \<le> 0 \<Longrightarrow> tonumber x \<le> 0"
  by (simp add: tonumber_def sgn_if)

lemma tostring_small: "\<bar>x\<bar> < 10 ^ 14 \<Longrightarrow> tostring x = x"
  by (simp add: tostring_def)

text \<open>
  The rounding at work: a limit of \<open>2^53 + 1\<close> is no double and becomes \<open>2^53\<close>, so
  the first call on a new key returns \<open>remaining = 2^53 - 1\<close>.
\<close>

lemma bit_length_double:
  "0 < n \<Longrightarrow> bit_length (2 * n) = Suc (bit_length n)"
  by (subst bit_length.simps) simp

lemma bit_length_two_power: "bit_length (2 ^ k) = Suc k"
proof (induction k)
  case 0
  show ?case
    by (subst bit_length.simps, subst bit_length.simps) simp
next
  case (Suc k)
  then show ?case
    by (simp add: bit_length_double)
qed

lemma bit_length_succ_even:
  "0 < n \<Longrightarrow> bit_length (2 * n + 1) = Suc (bit_length n)"
  by (subst bit_length.simps) simp

lemma tonumber_rounds: "tonumber 9007199254740993 = 9007199254740992"
proof -
  have "bit_length 4503599627370496 = 53"
    using bit_length_two_power [of 52] by simp
  then have "bit_length 9007199254740993 = 54"
    using bit_length_succ_even [of 4503599627370496] by simp
  then show ?thesis
    by (simp add: tonumber_def nearest_multiple_def Let_def)
qed

text \<open>\<open>SlidingWindowLimiter.Allow\<close> by the outcome of the round trip.\<close>

lemma Allow_alt:
  "SlidingWindowLimiter_Allow st c key L W =
     (case trip c of
        Unreachable \<Rightarrow> ((False, 0, 0, Some StoreError), st)
      | ReplyLost \<Rightarrow> ((False, 0, 0, Some StoreError), st(key := snd (script_at st c key L W)))
      | Served \<Rightarrow>
          ((fst (fst (script_at st c key L W)) = 1,
            word_of_int (snd (fst (script_at st c key L W))),
            Unix (now_ns c + W), None),
           st(key := snd (script_at st c key L W))))"
  by (simp add: SlidingWindowLimiter_Allow_def script_at_def Let_def
      split: prod.split round_trip.split)

lemma script_at_admit:
  assumes "window_count (st key) c W < tonumber (sint L)"
  shows "fst (script_at st c key L W)
     = (1, tonumber (tonumber (tonumber (sint L) - window_count (st key) c W) - 1))"
  using assms
  by (simp add: script_at_def sliding_window_script_def window_count_def Let_def)

lemma script_at_deny:
  assumes "\<not> window_count (st key) c W < tonumber (sint L)"
  shows "fst (fst (script_at st c key L W)) = 0
    \<and> snd (fst (script_at st c key L W)) = 0
    \<and> snd (script_at st c key L W) =
        ZREMRANGEBYSCORE (expire_due (st key) (srv_ms c)) (tonumber (UnixMilli (now_ns c - W)))"
  using assms
  by (simp add: script_at_def sliding_window_script_def window_count_def Let_def)

lemma admitted_Cons:
  "admitted st key L W (c # cs) =
     (if fst (fst (SlidingWindowLimiter_Allow st c key L W)) then 1 else 0)
     + admitted (snd (SlidingWindowLimiter_Allow st c key L W)) key L W cs"
  by (simp add: case_prod_beta Let_def)

declare admitted.simps(2) [simp del]

lemmas eval_defs = SlidingWindowLimiter_Allow_def sliding_window_script_def
  ZREMRANGEBYSCORE_def expire_due_def ZCARD_def ZCOUNT_def ZADD_def PEXPIRE_def absent_def
  empty_store_def tonumber_small tostring_small GetCurrentCount_def
  UnixMilli_def Milliseconds_def Unix_def Second_def admitted_Cons Let_def

lemma sint_word_of_int_small:
  assumes "- (2 ^ 63) \<le> x" and "x < 2 ^ 63"
  shows "sint (word_of_int x :: go_int) = x"
  using assms by (simp add: sint_sbintrunc' signed_take_bit_int_eq_self)

text \<open>
  For a limit that is a double (up to \<open>2^53\<close>), an admitted call returns
  \<open>remaining = L - count - 1\<close>, \<open>count\<close> being the cardinality the script counted.
\<close>

lemma Allow_remaining:
  assumes allowed: "fst (fst (SlidingWindowLimiter_Allow st c key L W))"
    and small: "sint L \<le> 2 ^ 53"
  shows "sint (fst (snd (fst (SlidingWindowLimiter_Allow st c key L W))))
           = sint L - window_count (st key) c W - 1"
proof -
  have served: "trip c = Served" and one: "fst (fst (script_at st c key L W)) = 1"
    using allowed by (cases "trip c"; simp add: Allow_alt)+
  have below: "window_count (st key) c W < tonumber (sint L)"
  proof (rule ccontr)
    assume "\<not> window_count (st key) c W < tonumber (sint L)"
    then have "fst (fst (script_at st c key L W)) = 0"
      using script_at_deny [of st key c W L] by simp
    with one show False by simp
  qed
  have cnt: "0 \<le> window_count (st key) c W"
    by (simp add: window_count_def ZCARD_def tonumber_nonneg)
  with below have "0 < tonumber (sint L)"
    by linarith
  then have pos: "0 < sint L"
    using tonumber_nonpos [of "sint L"] by linarith
  with small have lim: "tonumber (sint L) = sint L"
    by (intro tonumber_small) simp
  let ?d = "sint L - window_count (st key) c W"
  have d: "0 < ?d" "?d \<le> 2 ^ 53"
    using below cnt small lim by simp_all
  then have "tonumber ?d = ?d"
    by (intro tonumber_small) simp
  moreover have "tonumber (?d - 1) = ?d - 1"
    using d by (intro tonumber_small) simp
  ultimately have reply: "snd (fst (script_at st c key L W)) = ?d - 1"
    using script_at_admit [of st key c W L] below lim by simp
  have "sint (word_of_int (?d - 1) :: go_int) = ?d - 1"
    using d by (intro sint_word_of_int_small) simp_all
  with served reply show ?thesis
    by (simp add: Allow_alt)
qed

text \<open>
  With a strict bound the purge would keep every entry younger than the window: its
  score is not below the window start.
\<close>

lemma strict_purge_keeps_recent:
  assumes "t2 - t1 < W"
  shows "\<not> UnixMilli t1 < UnixMilli (t2 - W)"
proof -
  from assms have "t2 - W \<le> t1"
    by simp
  then have "(t2 - W) div 1000000 \<le> t1 div 1000000"
    by (rule zdiv_mono1) simp
  then show ?thesis
    by (simp add: UnixMilli_def)
qed

text \<open>
  Claim C1 says that over calls on one key that lie less than a window apart at most
  \<open>L\<close> are admitted. The code breaks it at \<open>L = 1\<close> and a window of one second. The
  calls \<open>early_call\<close> and \<open>late_call\<close> are 999.7 ms apart. When the later call
  arrives, the entry of the earlier one (score 1) is inside the window by
  \<open>GetCurrentCount\<close>, whose \<open>ZCOUNT\<close> includes the window start 1; but the script's
  \<open>ZREMRANGEBYSCORE key -inf 1\<close>, meant to remove the entries outside the window,
  removes it too, counts 0 and admits. Both calls return \<open>allowed = true\<close>.
\<close>

theorem sliding_window_admits_beyond_limit:
  "0 \<le> now_ns late_call - now_ns early_call
   \<and> now_ns late_call - now_ns early_call < Second
   \<and> fst (fst (SlidingWindowLimiter_Allow empty_store early_call ''k'' 1 Second))
   \<and> fst (GetCurrentCount (snd (SlidingWindowLimiter_Allow empty_store early_call ''k'' 1 Second))
             late_call ''k'' Second) = 1
   \<and> fst (fst (SlidingWindowLimiter_Allow
                 (snd (SlidingWindowLimiter_Allow empty_store early_call ''k'' 1 Second))
                 late_call ''k'' 1 Second))
   \<and> admitted empty_store ''k'' 1 Second [early_call, late_call] = 2"
  by (simp add: eval_defs early_call_def late_call_def)

subsection \<open>Dispatcher\<close>

declare digits.simps [simp del]

lemma digits_nonempty: "digits n \<noteq> []"
  by (subst digits.simps) simp

lemma FormatInt_nonempty: "FormatInt i \<noteq> []"
  by (simp add: FormatInt_def digits_nonempty)

lemma Itoa_nonempty: "Itoa i \<noteq> []"
  by (simp add: Itoa_def FormatInt_nonempty)

lemma Header_set: "v \<noteq> [] \<Longrightarrow> Header h key v = h(key \<mapsto> v)"
  by (simp add: Header_def)

lemma header_names_distinct:
  "HeaderRateLimitLimit \<noteq> HeaderRateLimitRemaining"
  "HeaderRateLimitLimit \<noteq> HeaderRateLimitReset"
  "HeaderRateLimitLimit \<noteq> HeaderRetryAfter"
  "HeaderRateLimitRemaining \<noteq> HeaderRateLimitReset"
  "HeaderRateLimitRemaining \<noteq> HeaderRetryAfter"
  "HeaderRateLimitReset \<noteq> HeaderRetryAfter"
  by (simp_all add: HeaderRateLimitLimit_def HeaderRateLimitRemaining_def
      HeaderRateLimitReset_def HeaderRetryAfter_def)

lemma determineTierAndKey_tier: "\<exists>tier. fst (determineTierAndKey m order req) = Some tier"
  by (simp add: determineTierAndKey_def Let_def split: option.split ctx_value.split)

text \<open>The handler once a tier is resolved and the limiter has decided.\<close>

lemma Middleware_decided:
  assumes "feature_on e" and "Enabled (config (mw s))"
    and "determineTierAndKey (mw s) (api_order e) req = (Some tier, key)"
    and "checkLimit s e key tier = ((allowed, remaining, reset), s')"
  shows "Middleware s e req =
    (if allowed then
       (\<lparr> headers = [HeaderRateLimitLimit \<mapsto> Itoa (GetEffectiveLimit tier),
                      HeaderRateLimitRemaining \<mapsto> Itoa remaining,
                      HeaderRateLimitReset \<mapsto> FormatInt reset],
           outcome = Next, recorded = [] \<rparr>, s')
     else
       (\<lparr> headers = [HeaderRateLimitLimit \<mapsto> Itoa (GetEffectiveLimit tier),
                      HeaderRateLimitRemaining \<mapsto> Itoa remaining,
                      HeaderRateLimitReset \<mapsto> FormatInt reset,
                      HeaderRetryAfter \<mapsto> FormatInt (max 1 (reset - Unix (t_retry e)))],
           outcome = AbortWithStatusJSON StatusTooManyRequests
             [(''error'', JString ''Rate limit exceeded''),
              (''retry_after'', JInt (max 1 (reset - Unix (t_retry e))))],
           recorded = [(req_method req, fullPath req, StatusTooManyRequests, [])] \<rparr>, s'))"
proof -
  have "(if reset - Unix (t_retry e) < 1 then 1 else reset - Unix (t_retry e))
      = max 1 (reset - Unix (t_retry e))"
    by simp
  with assms show ?thesis
    by (simp add: Middleware_def Let_def Header_set Itoa_nonempty FormatInt_nonempty)
qed

text \<open>
  Claim C6. Every decision the dispatcher produces, that is every request it handles
  with the feature flag and the configuration switched on, carries the three headers
  \<open>X-RateLimit-Limit\<close> (the tier's effective limit), \<open>X-RateLimit-Remaining\<close> and
  \<open>X-RateLimit-Reset\<close> as \<open>checkLimit\<close> returned them. A denial also carries
  \<open>Retry-After = max(1, reset - now_seconds)\<close>, which is at least 1, and ends the chain
  with status 429 and the body \<open>{"error": "Rate limit exceeded", "retry_after": n}\<close>;
  an admission passes the request on without \<open>Retry-After\<close>.
\<close>

theorem Middleware_headers:
  assumes "feature_on e" and "Enabled (config (mw s))"
  shows "\<exists>tier key allowed remaining reset s'.
      determineTierAndKey (mw s) (api_order e) req = (Some tier, key)
    \<and> checkLimit s e key tier = ((allowed, remaining, reset), s')
    \<and> snd (Middleware s e req) = s'
    \<and> headers (fst (Middleware s e req)) HeaderRateLimitLimit
         = Some (Itoa (GetEffectiveLimit tier))
    \<and> headers (fst (Middleware s e req)) HeaderRateLimitRemaining = Some (Itoa remaining)
    \<and> headers (fst (Middleware s e req)) HeaderRateLimitReset = Some (FormatInt reset)
    \<and> (if allowed then
          outcome (fst (Middleware s e req)) = Next
          \<and> headers (fst (Middleware s e req)) HeaderRetryAfter = None
        else
          headers (fst (Middleware s e req)) HeaderRetryAfter
            = Some (FormatInt (max 1 (reset - Unix (t_retry e))))
          \<and> 1 \<le> max 1 (reset - Unix (t_retry e))
          \<and> outcome (fst (Middleware s e req))
            = AbortWithStatusJSON 429
                [(''error'', JString ''Rate limit exceeded''),
                 (''retry_after'', JInt (max 1 (reset - Unix (t_retry e))))])"
proof -
  obtain tier key where tk: "determineTierAndKey (mw s) (api_order e) req = (Some tier, key)"
    using determineTierAndKey_tier [of "mw s" "api_order e" req]
    by (cases "determineTierAndKey (mw s) (api_order e) req") auto
  obtain allowed remaining reset s'
    where cl: "checkLimit s e key tier = ((allowed, remaining, reset), s')"
    by (metis prod.exhaust)
  note m = Middleware_decided [OF assms tk cl]
  show ?thesis
  proof (cases allowed)
    case True
    with m tk cl show ?thesis
      by (intro exI [of _ tier] exI [of _ key] exI [of _ True] exI [of _ remaining]
          exI [of _ reset] exI [of _ s'])
        (simp add: header_names_distinct header_names_distinct [symmetric])
  next
    case False
    with m tk cl show ?thesis
      by (intro exI [of _ tier] exI [of _ key] exI [of _ False] exI [of _ remaining]
          exI [of _ reset] exI [of _ s'])
        (simp add: header_names_distinct header_names_distinct [symmetric]
          StatusTooManyRequests_def)
  qed
qed


text \<open>The branches of \<open>checkLimit\<close>.\<close>

lemma checkLimit_local:
  assumes "useLocal (mw s) \<or> slidingWindow (mw s) = None"
  shows "checkLimit s e key tier =
    (fst (LocalLimiter_Allow (localLimiter (mw s)) (t_local e) key
            (GetEffectiveLimit tier) (GetEffectiveWindow tier)),
     s\<lparr>mw := (mw s)\<lparr>localLimiter :=
            snd (LocalLimiter_Allow (localLimiter (mw s)) (t_local e) key
                   (GetEffectiveLimit tier) (GetEffectiveWindow tier))\<rparr>\<rparr>)"
  using assms by (auto simp: checkLimit_def Let_def case_prod_beta)

lemma Allow_error:
  "snd (snd (snd (fst (SlidingWindowLimiter_Allow st c key L W)))) \<noteq> None
     \<longleftrightarrow> trip c \<noteq> Served"
  by (cases "trip c") (simp_all add: Allow_alt)

lemma checkLimit_shared:
  assumes "\<not> useLocal (mw s)" and "slidingWindow (mw s) \<noteq> None"
    and "trip (shared e) = Served"
  shows "checkLimit s e key tier =
    ((fst (fst (script_at (redis s) (shared e) key (GetEffectiveLimit tier)
                  (GetEffectiveWindow tier))) = 1,
      word_of_int (snd (fst (script_at (redis s) (shared e) key (GetEffectiveLimit tier)
                  (GetEffectiveWindow tier)))),
      Unix (now_ns (shared e) + GetEffectiveWindow tier)),
     s\<lparr>redis := (redis s)(key := snd (script_at (redis s) (shared e) key
                  (GetEffectiveLimit tier) (GetEffectiveWindow tier)))\<rparr>)"
  using assms by (auto simp: checkLimit_def Let_def Allow_alt)

lemma checkLimit_open:
  assumes "\<not> useLocal (mw s)" and "slidingWindow (mw s) \<noteq> None"
    and "trip (shared e) \<noteq> Served" and "\<not> FallbackToLocal (config (mw s))"
  shows "checkLimit s e key tier =
    ((True, GetEffectiveLimit tier, Unix (t_failopen e + GetEffectiveWindow tier)),
     s\<lparr>redis := snd (SlidingWindowLimiter_Allow (redis s) (shared e) key
                       (GetEffectiveLimit tier) (GetEffectiveWindow tier))\<rparr>)"
  using assms
  by (cases "trip (shared e)") (auto simp: checkLimit_def Let_def Allow_alt)

lemma Middleware_outcome:
  "outcome (fst (Middleware s e req)) = Next
   \<or> (\<exists>body. outcome (fst (Middleware s e req)) = AbortWithStatusJSON 429 body)"
proof (cases "feature_on e \<and> Enabled (config (mw s))")
  case True
  obtain tier key where tk: "determineTierAndKey (mw s) (api_order e) req = (Some tier, key)"
    using determineTierAndKey_tier [of "mw s" "api_order e" req]
    by (cases "determineTierAndKey (mw s) (api_order e) req") auto
  obtain allowed remaining reset s'
    where cl: "checkLimit s e key tier = ((allowed, remaining, reset), s')"
    by (metis prod.exhaust)
  from True have "feature_on e" and "Enabled (config (mw s))"
    by simp_all
  from Middleware_decided [OF this tk cl] show ?thesis
    by (cases allowed) (simp_all add: StatusTooManyRequests_def)
next
  case False
  then show ?thesis
    by (auto simp: Middleware_def Let_def)
qed

text \<open>
  Claim C4. When the sliding-window call returns an error (the store is unreachable or
  its reply is lost) and \<open>FallbackToLocal\<close> is false, \<open>checkLimit\<close> fails open: it
  returns \<open>allowed = true\<close>, \<open>remaining = limit\<close> and \<open>reset = (now + window).Unix()\<close>
  and leaves the middleware as it is, and the handler passes the request on. No handler
  outcome at all is anything but passing on or a 429 denial.
\<close>

theorem checkLimit_fail_open:
  assumes "\<not> useLocal (mw s)" and "slidingWindow (mw s) \<noteq> None"
    and "trip (shared e) \<noteq> Served" and "\<not> FallbackToLocal (config (mw s))"
  shows "fst (checkLimit s e key tier)
           = (True, GetEffectiveLimit tier, Unix (t_failopen e + GetEffectiveWindow tier))
    \<and> mw (snd (checkLimit s e key tier)) = mw s
    \<and> outcome (fst (Middleware s e req)) = Next
    \<and> (\<forall>s' e' req'. outcome (fst (Middleware s' e' req')) = Next
          \<or> (\<exists>body. outcome (fst (Middleware s' e' req')) = AbortWithStatusJSON 429 body))"
proof (intro conjI allI)
  note fo = checkLimit_open [OF assms]
  show "fst (checkLimit s e key tier)
           = (True, GetEffectiveLimit tier, Unix (t_failopen e + GetEffectiveWindow tier))"
    by (simp add: fo)
  show "mw (snd (checkLimit s e key tier)) = mw s"
    by (simp add: fo)
  show "outcome (fst (Middleware s e req)) = Next"
  proof (cases "feature_on e \<and> Enabled (config (mw s))")
    case True
    obtain tier' key' where tk: "determineTierAndKey (mw s) (api_order e) req = (Some tier', key')"
      using determineTierAndKey_tier [of "mw s" "api_order e" req]
      by (cases "determineTierAndKey (mw s) (api_order e) req") auto
    from True have on: "feature_on e" "Enabled (config (mw s))"
      by simp_all
    from Middleware_decided [OF on tk checkLimit_open [OF assms]] show ?thesis
      by simp
  next
    case False
    then show ?thesis
      by (auto simp: Middleware_def Let_def)
  qed
  show "outcome (fst (Middleware s' e' req')) = Next
          \<or> (\<exists>body. outcome (fst (Middleware s' e' req')) = AbortWithStatusJSON 429 body)"
    for s' e' req'
    by (rule Middleware_outcome)
qed

text \<open>
  Claim C3, as the code has it. A request whose resolved tier has a zero effective limit
  is not treated as if no tier applied: the active limiter runs with limit 0. Served by
  the shared sliding window, the request is denied with a 429 response. Served by the
  local limiter, it is denied with 429 when the key has an unexpired record, and
  otherwise passed on with \<open>X-RateLimit-Remaining: -1\<close>.
\<close>

theorem zero_limit_is_enforced:
  assumes "feature_on e" and "Enabled (config (mw s))"
    and "determineTierAndKey (mw s) (api_order e) req = (Some tier, key)"
    and "GetEffectiveLimit tier = 0"
  shows "(\<not> useLocal (mw s) \<and> slidingWindow (mw s) \<noteq> None \<and> trip (shared e) = Served \<longrightarrow>
            (\<exists>body. outcome (fst (Middleware s e req)) = AbortWithStatusJSON 429 body))
    \<and> ((useLocal (mw s) \<or> slidingWindow (mw s) = None)
         \<and> (\<exists>c. counters (localLimiter (mw s)) key = Some c
                  \<and> \<not> resetTime c < t_local e \<and> 0 \<le>s count c) \<longrightarrow>
            (\<exists>body. outcome (fst (Middleware s e req)) = AbortWithStatusJSON 429 body))
    \<and> ((useLocal (mw s) \<or> slidingWindow (mw s) = None)
         \<and> (counters (localLimiter (mw s)) key = None
              \<or> (\<exists>c. counters (localLimiter (mw s)) key = Some c \<and> resetTime c < t_local e)) \<longrightarrow>
            outcome (fst (Middleware s e req)) = Next
            \<and> headers (fst (Middleware s e req)) HeaderRateLimitRemaining = Some (Itoa (- 1)))"
proof (intro conjI impI)
  assume "\<not> useLocal (mw s) \<and> slidingWindow (mw s) \<noteq> None \<and> trip (shared e) = Served"
  then have sh: "\<not> useLocal (mw s)" "slidingWindow (mw s) \<noteq> None" "trip (shared e) = Served"
    by simp_all
  have "\<not> window_count (redis s key) (shared e) (GetEffectiveWindow tier)
            < tonumber (sint (0 :: go_int))"
    by (simp add: window_count_def ZCARD_def tonumber_small tonumber_not_negative)
  then have "fst (fst (script_at (redis s) (shared e) key 0 (GetEffectiveWindow tier))) = 0"
    using script_at_deny [of "redis s" key "shared e" "GetEffectiveWindow tier" 0] by simp
  then have "\<exists>r t s'. checkLimit s e key tier = ((False, r, t), s')"
    using checkLimit_shared [OF sh, of key tier] assms(4) by simp
  then obtain r t s' where "checkLimit s e key tier = ((False, r, t), s')"
    by blast
  from Middleware_decided [OF assms(1,2,3) this]
  show "\<exists>body. outcome (fst (Middleware s e req)) = AbortWithStatusJSON 429 body"
    by (simp add: StatusTooManyRequests_def)
next
  assume "(useLocal (mw s) \<or> slidingWindow (mw s) = None)
         \<and> (\<exists>c. counters (localLimiter (mw s)) key = Some c
                  \<and> \<not> resetTime c < t_local e \<and> 0 \<le>s count c)"
  then obtain c where loc: "useLocal (mw s) \<or> slidingWindow (mw s) = None"
    and c: "counters (localLimiter (mw s)) key = Some c" "\<not> resetTime c < t_local e"
      "0 \<le>s count c"
    by blast
  have "LocalLimiter_Allow (localLimiter (mw s)) (t_local e) key 0 (GetEffectiveWindow tier)
      = ((False, 0, Unix (resetTime c)), localLimiter (mw s))"
    using c by (rule LocalLimiter_Allow_deny)
  then have "\<exists>s'. checkLimit s e key tier = ((False, 0, Unix (resetTime c)), s')"
    using checkLimit_local [OF loc, of e key tier] assms(4) by simp
  then obtain s' where "checkLimit s e key tier = ((False, 0, Unix (resetTime c)), s')"
    by blast
  from Middleware_decided [OF assms(1,2,3) this]
  show "\<exists>body. outcome (fst (Middleware s e req)) = AbortWithStatusJSON 429 body"
    by (simp add: StatusTooManyRequests_def)
next
  assume "(useLocal (mw s) \<or> slidingWindow (mw s) = None)
         \<and> (counters (localLimiter (mw s)) key = None
              \<or> (\<exists>c. counters (localLimiter (mw s)) key = Some c \<and> resetTime c < t_local e))"
  then have loc: "useLocal (mw s) \<or> slidingWindow (mw s) = None"
    and c: "counters (localLimiter (mw s)) key = None
              \<or> (\<exists>c. counters (localLimiter (mw s)) key = Some c \<and> resetTime c < t_local e)"
    by simp_all
  have "fst (LocalLimiter_Allow (localLimiter (mw s)) (t_local e) key 0 (GetEffectiveWindow tier))
      = (True, 0 - 1, Unix (t_local e + GetEffectiveWindow tier))"
    using LocalLimiter_Allow_renew [OF c] by simp
  then have "\<exists>s'. checkLimit s e key tier
      = ((True, - 1, Unix (t_local e + GetEffectiveWindow tier)), s')"
    using checkLimit_local [OF loc, of e key tier] assms(4) by simp
  then obtain s' where "checkLimit s e key tier
      = ((True, - 1, Unix (t_local e + GetEffectiveWindow tier)), s')"
    by blast
  from Middleware_decided [OF assms(1,2,3) this]
  show "outcome (fst (Middleware s e req)) = Next"
    and "headers (fst (Middleware s e req)) HeaderRateLimitRemaining = Some (Itoa (- 1))"
    by (simp_all add: header_names_distinct header_names_distinct [symmetric])
qed

subsection \<open>Dispatcher: examples\<close>

lemmas example_defs = example_request_def example_env_def outage_env_def zero_limit_config_def
  no_fallback_config_def DefaultConfig_def boot_def New_def NewSlidingWindowLimiter_def
  NewLocalLimiter_def Second_def Minute_def

lemmas dispatch_defs = Middleware_def checkLimit_def determineTierAndKey_def BuildKey_def
  KeyTypeIP_def KeyTypeUser_def KeyTypeAPI_def KeyTypeGlobal_def GetEffectiveLimit_def
  GetEffectiveWindow_def LocalLimiter_Allow_def Header_set Itoa_nonempty FormatInt_nonempty
  HeaderRateLimitLimit_def HeaderRateLimitRemaining_def HeaderRateLimitReset_def
  HeaderRetryAfter_def StatusTooManyRequests_def word_sless_alt word_sle_eq

lemma digits_small: "n < 10 \<Longrightarrow> digits n = [''0123456789'' ! n]"
  by (subst digits.simps) simp

lemma digits_60: "digits 60 = ''60''" "digits 59 = ''59''" "digits 0 = ''0''" "digits 1 = ''1''"
  by (subst digits.simps, simp add: digits_small)+

lemma zero_key: "determineTierAndKey (mw (boot (Some RedisClient) (Some zero_limit_config) empty_store))
           (api_order example_env) example_request
       = (Some (IP zero_limit_config), ''ratelimit:ip:203.0.113.9'')"
  by (simp add: example_defs dispatch_defs)

text \<open>
  The claim as the specification words it fails: with the limit of the \<open>ip\<close> tier set
  to zero and the store answering, the first request of a client is denied with 429.
\<close>

theorem zero_limit_denied_counterexample:
  "GetEffectiveLimit (IP zero_limit_config) = 0
   \<and> determineTierAndKey (mw (boot (Some RedisClient) (Some zero_limit_config) empty_store))
           (api_order example_env) example_request
       = (Some (IP zero_limit_config), ''ratelimit:ip:203.0.113.9'')
   \<and> outcome (fst (Middleware (boot (Some RedisClient) (Some zero_limit_config) empty_store)
                      example_env example_request))
       = AbortWithStatusJSON 429
           [(''error'', JString ''Rate limit exceeded''), (''retry_after'', JInt 60)]"
  by (simp add: example_defs dispatch_defs eval_defs)


theorem zero_limit_is_enforced_witness:
  "feature_on example_env
   \<and> Enabled (config (mw (boot (Some RedisClient) (Some zero_limit_config) empty_store)))
   \<and> GetEffectiveLimit (IP zero_limit_config) = 0
   \<and> \<not> useLocal (mw (boot (Some RedisClient) (Some zero_limit_config) empty_store))
   \<and> slidingWindow (mw (boot (Some RedisClient) (Some zero_limit_config) empty_store)) \<noteq> None
   \<and> trip (shared example_env) = Served
   \<and> (\<exists>body. outcome (fst (Middleware (boot (Some RedisClient) (Some zero_limit_config) empty_store)
                               example_env example_request))
          = AbortWithStatusJSON 429 body)
   \<and> useLocal (mw (boot None (Some zero_limit_config) empty_store))
   \<and> counters (localLimiter (mw (boot None (Some zero_limit_config) empty_store)))
        ''ratelimit:ip:203.0.113.9'' = None
   \<and> outcome (fst (Middleware (boot None (Some zero_limit_config) empty_store)
                      example_env example_request)) = Next
   \<and> headers (fst (Middleware (boot None (Some zero_limit_config) empty_store)
                      example_env example_request)) HeaderRateLimitRemaining = Some ''-1''
   \<and> counters (localLimiter (mw (snd (Middleware (boot None (Some zero_limit_config) empty_store)
                      example_env example_request)))) ''ratelimit:ip:203.0.113.9''
        = Some \<lparr>count = 1, resetTime = Minute\<rparr>
   \<and> (\<exists>body. outcome (fst (Middleware
                 (snd (Middleware (boot None (Some zero_limit_config) empty_store)
                         example_env example_request))
                 example_env example_request))
          = AbortWithStatusJSON 429 body)"
proof -
  let ?shared = "boot (Some RedisClient) (Some zero_limit_config) empty_store"
  let ?local = "boot None (Some zero_limit_config) empty_store"
  let ?later = "snd (Middleware ?local example_env example_request)"
  let ?key = "''ratelimit:ip:203.0.113.9''"
  have on: "feature_on example_env"
    by (simp add: example_defs)
  have zero: "GetEffectiveLimit (IP zero_limit_config) = 0"
    by (simp add: example_defs dispatch_defs)
  have sh: "Enabled (config (mw ?shared))" "\<not> useLocal (mw ?shared)"
    "slidingWindow (mw ?shared) \<noteq> None" "trip (shared example_env) = Served"
    "determineTierAndKey (mw ?shared) (api_order example_env) example_request
       = (Some (IP zero_limit_config), ?key)"
    by (simp_all add: example_defs dispatch_defs)
  have lo: "Enabled (config (mw ?local))" "useLocal (mw ?local)"
    "counters (localLimiter (mw ?local)) ?key = None"
    "determineTierAndKey (mw ?local) (api_order example_env) example_request
       = (Some (IP zero_limit_config), ?key)"
    by (simp_all add: example_defs dispatch_defs)
  have later: "mw ?later = (mw ?local)\<lparr>localLimiter :=
       \<lparr>counters = [?key \<mapsto> \<lparr>count = 1, resetTime = Minute\<rparr>]\<rparr>\<rparr>"
    by (simp add: example_defs dispatch_defs)
  have la: "Enabled (config (mw ?later))" "useLocal (mw ?later)"
    "counters (localLimiter (mw ?later)) ?key = Some \<lparr>count = 1, resetTime = Minute\<rparr>"
    "determineTierAndKey (mw ?later) (api_order example_env) example_request
       = (Some (IP zero_limit_config), ?key)"
    "\<not> resetTime \<lparr>count = 1 :: go_int, resetTime = Minute\<rparr> < t_local example_env"
    "0 \<le>s count \<lparr>count = 1 :: go_int, resetTime = Minute\<rparr>"
    unfolding later by (simp_all add: example_defs dispatch_defs)
  note a = zero_limit_is_enforced [OF on sh(1) sh(5) zero]
  note b = zero_limit_is_enforced [OF on lo(1) lo(4) zero]
  note c = zero_limit_is_enforced [OF on la(1) la(4) zero]
  have "Itoa (- 1) = ''-1''"
    by (simp add: Itoa_def FormatInt_def digits_small)
  with a b c on zero sh lo la show ?thesis
    by simp
qed

theorem checkLimit_fail_open_witness:
  "\<not> useLocal (mw (boot (Some RedisClient) (Some no_fallback_config) empty_store))
   \<and> slidingWindow (mw (boot (Some RedisClient) (Some no_fallback_config) empty_store)) \<noteq> None
   \<and> trip (shared outage_env) \<noteq> Served
   \<and> \<not> FallbackToLocal (config (mw (boot (Some RedisClient) (Some no_fallback_config) empty_store)))
   \<and> fst (checkLimit (boot (Some RedisClient) (Some no_fallback_config) empty_store) outage_env
             ''ratelimit:ip:203.0.113.9'' (IP no_fallback_config)) = (True, 60, 60)
   \<and> outcome (fst (Middleware (boot (Some RedisClient) (Some no_fallback_config) empty_store)
                      outage_env example_request)) = Next"
proof -
  let ?s = "boot (Some RedisClient) (Some no_fallback_config) empty_store"
  have hyps: "\<not> useLocal (mw ?s)" "slidingWindow (mw ?s) \<noteq> None"
    "trip (shared outage_env) \<noteq> Served" "\<not> FallbackToLocal (config (mw ?s))"
    by (simp_all add: example_defs)
  have "GetEffectiveLimit (IP no_fallback_config) = 60"
    "Unix (t_failopen outage_env + GetEffectiveWindow (IP no_fallback_config)) = 60"
    by (simp_all add: example_defs dispatch_defs Unix_def)
  with checkLimit_fail_open [OF hyps, of "''ratelimit:ip:203.0.113.9''" "IP no_fallback_config"
      example_request] hyps
  show ?thesis
    by simp
qed

theorem Middleware_headers_witness:
  "feature_on example_env
   \<and> Enabled (config (mw (boot None None empty_store)))
   \<and> headers (fst (Middleware (boot None None empty_store) example_env example_request))
        HeaderRateLimitLimit = Some ''60''
   \<and> headers (fst (Middleware (boot None None empty_store) example_env example_request))
        HeaderRateLimitRemaining = Some ''59''
   \<and> headers (fst (Middleware (boot None None empty_store) example_env example_request))
        HeaderRateLimitReset = Some ''60''
   \<and> headers (fst (Middleware (boot None None empty_store) example_env example_request))
        HeaderRetryAfter = None
   \<and> outcome (fst (Middleware (boot None None empty_store) example_env example_request)) = Next"
proof -
  let ?s = "boot None None empty_store"
  have on: "feature_on example_env" "Enabled (config (mw ?s))"
    by (simp_all add: example_defs)
  have tk: "determineTierAndKey (mw ?s) (api_order example_env) example_request
      = (Some (IP DefaultConfig), ''ratelimit:ip:203.0.113.9'')"
    by (simp add: example_defs dispatch_defs)
  have cl: "fst (checkLimit ?s example_env ''ratelimit:ip:203.0.113.9'' (IP DefaultConfig))
      = (True, 59, 60)"
    by (simp add: example_defs dispatch_defs Unix_def Let_def)
  have texts: "Itoa (GetEffectiveLimit (IP DefaultConfig)) = ''60''" "Itoa 59 = ''59''"
    "FormatInt 60 = ''60''"
    by (simp_all add: example_defs dispatch_defs Itoa_def FormatInt_def digits_60)
  from Middleware_headers [OF on, of example_request] tk cl texts on show ?thesis
    by auto
qed

subsection \<open>Construction without a store client\<close>

lemma served_locally_guard:
  "useLocal (mw s) \<or> slidingWindow (mw s) = None \<Longrightarrow> served_locally s e key tier"
  unfolding served_locally_def by (rule checkLimit_local)

lemma Middleware_state:
  "snd (Middleware s e req) = s
   \<or> (\<exists>key tier. snd (Middleware s e req) = snd (checkLimit s e key tier))"
proof (cases "feature_on e \<and> Enabled (config (mw s))")
  case True
  obtain tier key where tk: "determineTierAndKey (mw s) (api_order e) req = (Some tier, key)"
    using determineTierAndKey_tier [of "mw s" "api_order e" req]
    by (cases "determineTierAndKey (mw s) (api_order e) req") auto
  obtain allowed remaining reset s'
    where cl: "checkLimit s e key tier = ((allowed, remaining, reset), s')"
    by (metis prod.exhaust)
  from True have "feature_on e" and "Enabled (config (mw s))"
    by simp_all
  from Middleware_decided [OF this tk cl] have "snd (Middleware s e req) = s'"
    by (cases allowed) simp_all
  with cl have "snd (Middleware s e req) = snd (checkLimit s e key tier)"
    by simp
  then show ?thesis
    by blast
next
  case False
  then show ?thesis
    by (auto simp: Middleware_def Let_def)
qed

lemma local_only_step:
  assumes "local_only store s"
  shows "local_only store (step s ev)"
proof (cases ev)
  case (Request e req)
  from assms have loc: "useLocal (mw s) \<or> slidingWindow (mw s) = None"
    by (simp add: local_only_def)
  have "local_only store (snd (checkLimit s e key tier))" for key tier
    using assms by (simp add: checkLimit_local [OF loc] local_only_def)
  with assms Middleware_state [of s e req] Request show ?thesis
    by auto
next
  case (RecoveryCheck ping_ok)
  with assms show ?thesis
    by (simp add: scheduleRedisRecoveryCheck_def local_only_def)
next
  case (Publish cfg)
  with assms show ?thesis
    by (simp add: SetConfig_def local_only_def)
qed

lemma local_only_run:
  "local_only store s \<Longrightarrow> local_only store (run s evs)"
  unfolding run_def
  by (induction evs arbitrary: s) (simp_all add: local_only_step)

lemma local_only_boot: "local_only store (boot None cfg store)"
  by (simp add: local_only_def boot_def New_def)

text \<open>
  Claim C10. A middleware constructed with a nil Redis client starts with
  \<open>useLocal = true\<close> and a nil sliding-window limiter, and stays so through every
  history of requests, recovery checks and configuration updates; the store is never
  touched, and every \<open>checkLimit\<close> decision is the one of the in-process limiter. In
  any system at all, the guard \<open>useLocal || slidingWindow == nil\<close> sends \<open>checkLimit\<close>
  to the in-process limiter, so the sliding-window call is reached with a limiter only.
\<close>

theorem nil_client_serves_locally:
  "useLocal (New None cfg) \<and> slidingWindow (New None cfg) = None
   \<and> useLocal (mw (run (boot None cfg store) evs))
   \<and> slidingWindow (mw (run (boot None cfg store) evs)) = None
   \<and> redis (run (boot None cfg store) evs) = store
   \<and> served_locally (run (boot None cfg store) evs) e key tier
   \<and> (\<forall>s. useLocal (mw s) \<or> slidingWindow (mw s) = None \<longrightarrow> served_locally s e key tier)"
proof -
  have "local_only store (run (boot None cfg store) evs)"
    by (intro local_only_run local_only_boot)
  then have "useLocal (mw (run (boot None cfg store) evs))"
    and "slidingWindow (mw (run (boot None cfg store) evs)) = None"
    and "redis (run (boot None cfg store) evs) = store"
    by (simp_all add: local_only_def)
  moreover have "useLocal (New None cfg) \<and> slidingWindow (New None cfg) = None"
    by (simp add: New_def)
  ultimately show ?thesis
    by (simp add: served_locally_guard)
qed

theorem nil_client_serves_locally_witness:
  "slidingWindow (mw (boot None None empty_store)) = None
   \<and> served_locally (boot None None empty_store) example_env
        ''ratelimit:ip:203.0.113.9'' (IP DefaultConfig)
   \<and> fst (checkLimit (boot None None empty_store) example_env
        ''ratelimit:ip:203.0.113.9'' (IP DefaultConfig)) = (True, 59, 60)"
proof -
  let ?s = "boot None None empty_store"
  have nil: "slidingWindow (mw ?s) = None"
    by (simp add: example_defs)
  have "fst (checkLimit ?s example_env ''ratelimit:ip:203.0.113.9'' (IP DefaultConfig))
      = (True, 59, 60)"
    by (simp add: example_defs dispatch_defs Unix_def Let_def)
  with nil_client_serves_locally
    [of None empty_store "[]" example_env "''ratelimit:ip:203.0.113.9''" "IP DefaultConfig"] nil
  show ?thesis
    by blast
qed

subsection \<open>Tier resolution\<close>

lemma range_API_None:
  "range_API api order path = None
     \<longleftrightarrow> (\<forall>p\<in>set order. \<forall>t. api p = Some t \<longrightarrow> \<not> matchPath p path)"
  by (induction order) (auto split: option.splits)

lemma range_API_Some:
  "range_API api order path = Some t
     \<Longrightarrow> \<exists>p\<in>set order. api p = Some t \<and> matchPath p path"
  by (induction order) (auto split: option.splits if_splits)

lemma determineTierAndKey_alt:
  "determineTierAndKey m order req =
     (case range_API (API (config m)) order (routed_path req) of
        Some tier \<Rightarrow> (Some tier, BuildKey KeyTypeAPI [] (routed_path req))
      | None \<Rightarrow> by_identity m req)"
  by (auto simp: determineTierAndKey_def by_identity_def routed_path_def Let_def
      split: option.split)

lemma overlap_matches:
  "matchPath ''/a/*'' ''/a/c/b''" "matchPath ''/a/:x/b'' ''/a/c/b''"
  by (simp_all add: matchPath_def HasSuffix_def TrimSuffix_def HasPrefix_def)

text \<open>
  Claim C5, as the code has it. \<open>determineTierAndKey\<close> returns the tier of the first
  matching pattern in the order in which \<open>range\<close> visits the API map, and Go does not
  fix that order. For a fixed request and configuration, any two evaluations produce the
  same key; they select the same \<open>TierConfig\<close> whenever all registered patterns that
  match the path carry the same \<open>TierConfig\<close> (in particular when at most one
  matches). With \<open>/a/*\<close> and \<open>/a/:x/b\<close> both registered, the request \<open>/a/c/b\<close>
  resolves to whichever of the two is visited first.
\<close>

theorem tier_resolution_order:
  assumes "visits (API (config m)) order1" and "visits (API (config m)) order2"
  shows "snd (determineTierAndKey m order1 req) = snd (determineTierAndKey m order2 req)
    \<and> ((\<forall>p q t u. API (config m) p = Some t \<and> API (config m) q = Some u
            \<and> matchPath p (routed_path req) \<and> matchPath q (routed_path req) \<longrightarrow> t = u) \<longrightarrow>
         determineTierAndKey m order1 req = determineTierAndKey m order2 req)
    \<and> range_API [''/a/*'' \<mapsto> t1, ''/a/:x/b'' \<mapsto> t2] [''/a/*'', ''/a/:x/b''] ''/a/c/b'' = Some t1
    \<and> range_API [''/a/*'' \<mapsto> t1, ''/a/:x/b'' \<mapsto> t2] [''/a/:x/b'', ''/a/*''] ''/a/c/b'' = Some t2"
proof (intro conjI impI)
  let ?api = "API (config m)"
  let ?path = "routed_path req"
  from assms have same: "set order1 = set order2"
    by (simp add: visits_def)
  then have none: "range_API ?api order1 ?path = None \<longleftrightarrow> range_API ?api order2 ?path = None"
    by (simp add: range_API_None)
  show "snd (determineTierAndKey m order1 req) = snd (determineTierAndKey m order2 req)"
  proof (cases "range_API ?api order1 ?path")
    case None
    with none show ?thesis
      by (simp add: determineTierAndKey_alt)
  next
    case (Some t)
    with none obtain u where "range_API ?api order2 ?path = Some u"
      by auto
    with Some show ?thesis
      by (simp add: determineTierAndKey_alt)
  qed
  show "determineTierAndKey m order1 req = determineTierAndKey m order2 req"
    if agree: "\<forall>p q t u. ?api p = Some t \<and> ?api q = Some u
            \<and> matchPath p ?path \<and> matchPath q ?path \<longrightarrow> t = u"
  proof (cases "range_API ?api order1 ?path")
    case None
    with none show ?thesis
      by (simp add: determineTierAndKey_alt)
  next
    case (Some t)
    with none obtain u where u: "range_API ?api order2 ?path = Some u"
      by auto
    from range_API_Some [OF Some] range_API_Some [OF u] agree have "t = u"
      by blast
    with Some u show ?thesis
      by (simp add: determineTierAndKey_alt)
  qed
  show "range_API [''/a/*'' \<mapsto> t1, ''/a/:x/b'' \<mapsto> t2] [''/a/*'', ''/a/:x/b''] ''/a/c/b'' = Some t1"
    by (simp add: overlap_matches)
  show "range_API [''/a/*'' \<mapsto> t1, ''/a/:x/b'' \<mapsto> t2] [''/a/:x/b'', ''/a/*''] ''/a/c/b'' = Some t2"
    by (simp add: overlap_matches)
qed

text \<open>
  The claim as the specification words it fails: two orders in which \<open>range\<close> may
  visit the map \<open>{/a/*, /a/:x/b}\<close> resolve the request \<open>/a/c/b\<close> to different tiers,
  and the order that visits \<open>/a/*\<close> first selects \<open>/a/*\<close>.
\<close>

theorem tier_resolution_order_counterexample:
  "visits (API overlap_config) [''/a/*'', ''/a/:x/b'']
   \<and> visits (API overlap_config) [''/a/:x/b'', ''/a/*'']
   \<and> fst (determineTierAndKey (New None (Some overlap_config)) [''/a/*'', ''/a/:x/b'']
            overlap_request) = Some (Global DefaultConfig)
   \<and> fst (determineTierAndKey (New None (Some overlap_config)) [''/a/:x/b'', ''/a/*'']
            overlap_request) = Some (User DefaultConfig)
   \<and> Global DefaultConfig \<noteq> User DefaultConfig"
  by (simp add: visits_def overlap_config_def overlap_request_def New_def
      determineTierAndKey_alt routed_path_def overlap_matches DefaultConfig_def insert_commute)

theorem tier_resolution_order_witness:
  "visits (API overlap_config) [''/a/*'', ''/a/:x/b'']
   \<and> visits (API overlap_config) [''/a/:x/b'', ''/a/*'']
   \<and> snd (determineTierAndKey (New None (Some overlap_config)) [''/a/*'', ''/a/:x/b'']
            overlap_request)
     = snd (determineTierAndKey (New None (Some overlap_config)) [''/a/:x/b'', ''/a/*'']
            overlap_request)
   \<and> \<not> matchPath ''/a/*'' (routed_path (overlap_request\<lparr>urlPath := ''/b''\<rparr>))
   \<and> \<not> matchPath ''/a/:x/b'' (routed_path (overlap_request\<lparr>urlPath := ''/b''\<rparr>))
   \<and> determineTierAndKey (New None (Some overlap_config)) [''/a/*'', ''/a/:x/b'']
            (overlap_request\<lparr>urlPath := ''/b''\<rparr>)
     = determineTierAndKey (New None (Some overlap_config)) [''/a/:x/b'', ''/a/*'']
            (overlap_request\<lparr>urlPath := ''/b''\<rparr>)"
proof -
  let ?m = "New None (Some overlap_config)"
  let ?other = "overlap_request\<lparr>urlPath := ''/b''\<rparr>"
  have cfg: "API (config ?m) = API overlap_config"
    by (simp add: New_def)
  have v: "visits (API (config ?m)) [''/a/*'', ''/a/:x/b'']"
    "visits (API (config ?m)) [''/a/:x/b'', ''/a/*'']"
    unfolding cfg
    by (simp_all add: visits_def overlap_config_def DefaultConfig_def insert_commute)
  have nomatch: "\<not> matchPath ''/a/*'' (routed_path ?other)"
    "\<not> matchPath ''/a/:x/b'' (routed_path ?other)"
    by (simp_all add: routed_path_def overlap_request_def matchPath_def HasSuffix_def
        TrimSuffix_def HasPrefix_def)
  have agree: "\<forall>p q t u. API (config ?m) p = Some t \<and> API (config ?m) q = Some u
            \<and> matchPath p (routed_path ?other)
            \<and> matchPath q (routed_path ?other) \<longrightarrow> t = u"
    using nomatch unfolding cfg by (auto simp: overlap_config_def split: if_splits)
  from tier_resolution_order [OF v, of overlap_request] tier_resolution_order [OF v, of ?other]
    agree v nomatch
  show ?thesis
    unfolding cfg by simp
qed

end
